theory Spec2Isabelle
  imports Main "HOL-Library.Word"
begin

unbundle bit_operations_syntax

section \<open>Interactions (structures/slash.ts)\<close>

subsection \<open>Options and the resolved-entity tables\<close>

text \<open>
  The enum \<open>SlashCommandOptionType\<close> is declared in types/slash.ts; \<open>Interaction.option\<close>
  names three of its members and treats every other member alike, so the remaining
  members are kept apart only by their number.
\<close>

datatype SlashCommandOptionType = USER | ROLE | CHANNEL | OTHER_TYPE nat

text \<open>
  A raw option value is a JSON scalar. Used as the key of a \<open>Dict\<close> it is converted to a
  property key: a string is its own key, an integer is written in decimal, a boolean is
  \<open>true\<close> or \<open>false\<close>.
\<close>

datatype raw_value = Str string | Num int | Bool bool

fun digits :: "nat \<Rightarrow> string" where
  "digits n =
     (if n < 10 then [char_of (48 + n)]
      else digits (n div 10) @ [char_of (48 + n mod 10)])"

fun property_key :: "raw_value \<Rightarrow> string" where
  "property_key (Str s) = s"
| "property_key (Num n) = (if n < 0 then CHR ''-'' # digits (nat (- n)) else digits (nat n))"
| "property_key (Bool b) = (if b then ''true'' else ''false'')"

record InteractionApplicationCommandOption =
  name :: string
  type :: SlashCommandOptionType
  "value" :: "raw_value option"

record InteractionApplicationCommandData =
  data_name :: string
  options :: "InteractionApplicationCommandOption list option"

record ('u, 'm, 'c, 'r) InteractionApplicationCommandResolved =
  users :: "string \<rightharpoonup> 'u"
  members :: "string \<rightharpoonup> 'm"
  channels :: "string \<rightharpoonup> 'c"
  roles :: "string \<rightharpoonup> 'r"

text \<open>
  The fields of an \<open>Interaction\<close> that its methods read or write (\<open>interaction_id\<close>
  is the field \<open>id\<close>). \<open>client_user_id\<close> is \<open>this.client.user?.id\<close>.
\<close>

record ('u, 'm, 'c, 'r) Interaction =
  interaction_id :: string
  token :: string
  data :: "InteractionApplicationCommandData option"
  responded :: bool
  resolved :: "('u, 'm, 'c, 'r) InteractionApplicationCommandResolved"
  client_user_id :: "string option"

text \<open>What \<open>option\<close> hands back: \<open>undefined\<close>, a raw value, or a resolved entity.\<close>

datatype ('u, 'c, 'r) option_result =
  Undefined | Raw raw_value | AUser 'u | ARole 'r | AChannel 'c

text \<open>\<open>get options()\<close>: \<open>this.data?.options ?? []\<close>.\<close>

definition get_options ::
  "('u, 'm, 'c, 'r) Interaction \<Rightarrow> InteractionApplicationCommandOption list" where
  "get_options i =
     (case data i of None \<Rightarrow> [] | Some d \<Rightarrow> (case options d of None \<Rightarrow> [] | Some os \<Rightarrow> os))"

text \<open>Reading \<open>dict[key]\<close>: an absent key reads as \<open>undefined\<close>.\<close>

definition index :: "(string \<rightharpoonup> 'a) \<Rightarrow> raw_value \<Rightarrow> ('a \<Rightarrow> ('u, 'c, 'r) option_result)
    \<Rightarrow> ('u, 'c, 'r) option_result" where
  "index dict v wrap = (case dict (property_key v) of None \<Rightarrow> Undefined | Some e \<Rightarrow> wrap e)"

definition option :: "('u, 'm, 'c, 'r) Interaction \<Rightarrow> string \<Rightarrow> ('u, 'c, 'r) option_result" where
  "option i n =
     (case find (\<lambda>e. name e = n) (get_options i) of
        None \<Rightarrow> Undefined
      | Some op \<Rightarrow>
          (case value op of
             None \<Rightarrow> Undefined
           | Some v \<Rightarrow>
               if type op = USER then index (users (resolved i)) v AUser
               else if type op = ROLE then index (roles (resolved i)) v ARole
               else if type op = CHANNEL then index (channels (resolved i)) v AChannel
               else Raw v))"

subsection \<open>The transport\<close>

text \<open>
  \<open>this.client.rest.post(endpoint, body)\<close> is the only outbound call of \<open>respond\<close> and
  \<open>send\<close>. The REST manager is outside this code: it is a parameter that either rejects
  with some \<open>'e\<close> or resolves to a response \<open>'resp\<close>. Every call made is recorded in
  \<open>issued\<close>. The endpoint template \<open>INTERACTION_CALLBACK\<close> (types/endpoint.ts) is kept
  symbolic.
\<close>

datatype endpoint = INTERACTION_CALLBACK string string | URL string

datatype InteractionResponseType =
  ACKNOWLEDGE | CHANNEL_MESSAGE | CHANNEL_MESSAGE_WITH_SOURCE | ACK_WITH_SOURCE
  | OTHER_RESPONSE nat

text \<open>
  Bitwise \<open>|\<close> works on 32-bit integers: both operands go through ToInt32, which
  \<open>word_of_int\<close> is on integers.
\<close>

datatype flags_value = FlagNumber int | FlagArray "int list"

record ('emb, 'am) InteractionMessageOptions =
  content :: "string option"
  embeds :: "'emb list option"
  tts :: "bool option"
  flags :: "flags_value option"
  allowedMentions :: "'am option"
  withSource :: "bool option"

record ('emb, 'am) InteractionResponse = "('emb, 'am) InteractionMessageOptions" +
  response_type :: "InteractionResponseType option"
  temp :: "bool option"
  ephemeral :: "bool option"

record ('emb, 'am) InteractionResponseData =
  data_content :: string
  data_embeds :: "'emb list option"
  data_tts :: bool
  data_flags :: "32 word"
  allowed_mentions :: "'am option"

record ('emb, 'am) InteractionResponsePayload =
  payload_type :: InteractionResponseType
  payload_data :: "('emb, 'am) InteractionResponseData option"

record ('emb, 'f, 'am) WebhookMessageOptions =
  wh_embed :: "'emb option"
  wh_embeds :: "'emb list option"
  wh_file :: "'f option"
  wh_tts :: "bool option"
  wh_allowedMentions :: "'am option"
  wh_name :: "string option"
  wh_avatar :: "string option"

record ('emb, 'f, 'am) WebhookPayload =
  p_content :: "string option"
  p_embeds :: "'emb list option"
  p_file :: "'f option"
  p_tts :: "bool option"
  p_allowed_mentions :: "'am option"
  p_username :: "string option"
  p_avatar :: "string option"

datatype ('emb, 'f, 'am) body =
  ResponseBody "('emb, 'am) InteractionResponsePayload"
| MessageBody "('emb, 'f, 'am) WebhookPayload"

datatype ('emb, 'f, 'am) rest_call = POST endpoint "('emb, 'f, 'am) body"

text \<open>What a method throws: an \<open>Error\<close> it constructs, or the rejection of the transport.\<close>

datatype 'e thrown = Error string | Rejected 'e

text \<open>
  A method call seen from outside: the outbound calls it issued, the Interaction as it
  is left, and the value it resolves to or the exception it throws.
\<close>

record ('i, 'call, 'x, 'a) run =
  issued :: "'call list"
  after :: 'i
  result :: "'x + 'a"

subsection \<open>respond\<close>

definition response_flags :: "32 word \<Rightarrow> ('emb, 'am) InteractionResponse \<Rightarrow> 32 word" where
  "response_flags EPHEMERAL d =
     (let flags0 = (if ephemeral d = Some True \<or> temp d = Some True then 0 OR EPHEMERAL else 0)
      in case flags d of
           None \<Rightarrow> flags0
         | Some (FlagArray fs) \<Rightarrow> foldl (\<lambda>p a. p OR word_of_int a) flags0 fs
         | Some (FlagNumber n) \<Rightarrow> flags0 OR word_of_int n)"

definition response_payload ::
  "32 word \<Rightarrow> ('emb, 'am) InteractionResponse \<Rightarrow> ('emb, 'am) InteractionResponsePayload" where
  "response_payload EPHEMERAL d =
     \<lparr> payload_type =
         (case response_type d of
            Some t \<Rightarrow> t
          | None \<Rightarrow> if withSource d = Some False then CHANNEL_MESSAGE
                    else CHANNEL_MESSAGE_WITH_SOURCE),
       payload_data =
         (if response_type d = None \<or> response_type d = Some CHANNEL_MESSAGE_WITH_SOURCE
             \<or> response_type d = Some CHANNEL_MESSAGE
          then Some \<lparr> data_content = (case content d of None \<Rightarrow> [] | Some c \<Rightarrow> c),
                      data_embeds = embeds d,
                      data_tts = (case tts d of None \<Rightarrow> False | Some b \<Rightarrow> b),
                      data_flags = response_flags EPHEMERAL d,
                      allowed_mentions = allowedMentions d \<rparr>
          else None) \<rparr>"

definition respond_call ::
  "32 word \<Rightarrow> ('u, 'm, 'c, 'r) Interaction \<Rightarrow> ('emb, 'am) InteractionResponse
    \<Rightarrow> ('emb, 'f, 'am) rest_call" where
  "respond_call EPHEMERAL i d =
     POST (INTERACTION_CALLBACK (interaction_id i) (token i))
          (ResponseBody (response_payload EPHEMERAL d))"

definition respond ::
  "(('emb, 'f, 'am) rest_call \<Rightarrow> 'e + 'resp) \<Rightarrow> 32 word \<Rightarrow> ('u, 'm, 'c, 'r) Interaction
    \<Rightarrow> ('emb, 'am) InteractionResponse
    \<Rightarrow> (('u, 'm, 'c, 'r) Interaction, ('emb, 'f, 'am) rest_call, 'e thrown, unit) run" where
  "respond post EPHEMERAL i d =
     (if responded i
      then \<lparr> issued = [], after = i, result = Inl (Error ''Already responded to Interaction'') \<rparr>
      else
        (case post (respond_call EPHEMERAL i d) of
           Inl e \<Rightarrow> \<lparr> issued = [respond_call EPHEMERAL i d], after = i, result = Inl (Rejected e) \<rparr>
         | Inr resp \<Rightarrow>
             \<lparr> issued = [respond_call EPHEMERAL i d], after = i\<lparr>responded := True\<rparr>,
               result = Inr () \<rparr>))"

subsection \<open>send\<close>

text \<open>
  An argument of \<open>send\<close> is a string, an options object, or an \<open>Embed\<close> instance (the
  method tests \<open>option instanceof Embed\<close>); each of the two arguments may be left out.
\<close>

datatype ('emb, 'f, 'am) send_arg =
  Text string | Options "('emb, 'f, 'am) WebhookMessageOptions" | AnEmbed 'emb

text \<open>\<open>get url()\<close>; an absent \<open>client.user\<close> is spliced in as the text \<open>undefined\<close>.\<close>

definition url :: "('u, 'm, 'c, 'r) Interaction \<Rightarrow> string" where
  "url i = ''https://discord.com/api/v8/webhooks/''
             @ (case client_user_id i of None \<Rightarrow> ''undefined'' | Some u \<Rightarrow> u) @ ''/'' @ token i"

text \<open>Lines 280-283: an object in first position is the options, and there is no text.\<close>

definition send_args ::
  "('emb, 'f, 'am) send_arg option \<Rightarrow> ('emb, 'f, 'am) send_arg option
    \<Rightarrow> string option \<times> ('emb, 'f, 'am) send_arg option" where
  "send_args text opt =
     (case text of
        None \<Rightarrow> (None, opt)
      | Some (Text s) \<Rightarrow> (Some s, opt)
      | Some a \<Rightarrow> (None, Some a))"

text \<open>
  Lines 289-313. A string in option position has none of the fields read here. A field
  left \<open>undefined\<close>, or never assigned, is \<open>None\<close>.
\<close>

definition send_payload ::
  "string option \<Rightarrow> ('emb, 'f, 'am) send_arg option \<Rightarrow> ('emb, 'f, 'am) WebhookPayload" where
  "send_payload text opt =
     (case (case opt of
              Some (AnEmbed e) \<Rightarrow>
                Some \<lparr> wh_embed = None, wh_embeds = Some [e], wh_file = None, wh_tts = None,
                       wh_allowedMentions = None, wh_name = None, wh_avatar = None \<rparr>
            | Some (Options x) \<Rightarrow> Some x
            | _ \<Rightarrow> None) of
        None \<Rightarrow>
          \<lparr> p_content = text, p_embeds = None, p_file = None, p_tts = None,
            p_allowed_mentions = None, p_username = None, p_avatar = None \<rparr>
      | Some x \<Rightarrow>
          \<lparr> p_content = text,
            p_embeds = (case wh_embed x of Some e \<Rightarrow> Some [e] | None \<Rightarrow> wh_embeds x),
            p_file = wh_file x, p_tts = wh_tts x, p_allowed_mentions = wh_allowedMentions x,
            p_username = wh_name x, p_avatar = wh_avatar x \<rparr>)"

text \<open>
  The \<open>Message\<close> that \<open>send\<close> resolves to is built from the transport's response by the
  object model; the response stands for it here.
\<close>

definition send ::
  "(('emb, 'f, 'am) rest_call \<Rightarrow> 'e + 'resp) \<Rightarrow> ('u, 'm, 'c, 'r) Interaction
    \<Rightarrow> ('emb, 'f, 'am) send_arg option \<Rightarrow> ('emb, 'f, 'am) send_arg option
    \<Rightarrow> (('u, 'm, 'c, 'r) Interaction, ('emb, 'f, 'am) rest_call, 'e thrown, 'resp) run" where
  "send post i text opt =
     (case send_args text opt of
        (None, None) \<Rightarrow>
          \<lparr> issued = [], after = i, result = Inl (Error ''Either text or option is necessary.'') \<rparr>
      | (text', opt') \<Rightarrow>
          (let payload = send_payload text' opt'
           in if (case p_embeds payload of None \<Rightarrow> False | Some es \<Rightarrow> length es > 10)
              then \<lparr> issued = [], after = i,
                     result = Inl (Error ''Cannot send more than 10 embeds through Interaction Webhook'') \<rparr>
              else
                (case post (POST (URL (url i @ ''?wait=true'')) (MessageBody payload)) of
                   Inl e \<Rightarrow>
                     \<lparr> issued = [POST (URL (url i @ ''?wait=true'')) (MessageBody payload)],
                       after = i, result = Inl (Rejected e) \<rparr>
                 | Inr resp \<Rightarrow>
                     \<lparr> issued = [POST (URL (url i @ ''?wait=true'')) (MessageBody payload)],
                       after = i, result = Inr resp \<rparr>)))"

section \<open>The command client (models/commandClient.ts)\<close>

subsection \<open>Values\<close>

text \<open>A value of type \<open>string | string[]\<close>.\<close>

datatype strings = One string | Many "string list"

text \<open>\<open>typeof x === 'string' ? [x] : x\<close>, and \<open>[...prefix, x]\<close> against \<open>[...prefix, ...x]\<close>.\<close>

fun array_of :: "strings \<Rightarrow> string list" where
  "array_of (One s) = [s]"
| "array_of (Many ss) = ss"

text \<open>The spread \<open>...x\<close>: an array gives its elements, a string gives its characters.\<close>

fun spread :: "strings \<Rightarrow> string list" where
  "spread (One s) = map (\<lambda>ch. [ch]) s"
| "spread (Many ss) = ss"

text \<open>
  \<open>[...new Set(xs)]\<close>: a Set keeps each element once, in the order of first insertion.
\<close>

fun insert_each :: "'a list \<Rightarrow> 'a list \<Rightarrow> 'a list" where
  "insert_each seen [] = seen"
| "insert_each seen (x # xs) = insert_each (if x \<in> set seen then seen else seen @ [x]) xs"

definition unique :: "'a list \<Rightarrow> 'a list" where
  "unique xs = insert_each [] xs"

text \<open>\<open>content.startsWith(v)\<close>.\<close>

definition startsWith :: "string \<Rightarrow> string \<Rightarrow> bool" where
  "startsWith s v = (take (length v) s = v)"

subsection \<open>Messages, commands, categories, the client\<close>

text \<open>
  \<open>me\<close> is \<open>await msg.guild.me()\<close> followed by \<open>me.permissions.has\<close>: the fetch may reject;
  otherwise it gives the bot's permission test in that guild.
\<close>

record 'e Guild =
  guild_id :: string
  me :: "'e + (string \<Rightarrow> bool)"

text \<open>
  What \<open>processMessage\<close> reads of a \<open>Message\<close>: \<open>msg_content\<close> is \<open>msg.content\<close>,
  \<open>author_bot\<close> is \<open>msg.author.bot === true\<close>, \<open>channel_nsfw\<close> is
  \<open>msg.channel.nsfw === true\<close>, and \<open>member\<close> is \<open>msg.member?.permissions.has\<close>.
\<close>

record 'e Message =
  msg_content :: string
  author_id :: string
  author_bot :: bool
  channel_id :: string
  channel_nsfw :: bool
  guild :: "'e Guild option"
  member :: "(string \<Rightarrow> bool) option"

record ParsedCommand =
  parsed_name :: string
  args :: "string list"
  argString :: string

text \<open>
  The dispatch context. Its \<open>command\<close> field refers to the command object; the reference
  is the command's name here.
\<close>

record 'e CommandContext =
  ctx_name :: string
  ctx_prefix :: string
  ctx_args :: "string list"
  ctx_argString :: string
  ctx_message :: "'e Message"
  ctx_author :: string
  ctx_command :: string
  ctx_channel :: string
  ctx_guild :: "'e Guild option"

text \<open>
  The settings a \<open>Command\<close> and a \<open>Category\<close> share (command.ts declares both). An
  absent setting is \<open>None\<close>.
\<close>

record Settings =
  whitelistedGuilds :: "string list option"
  whitelistedChannels :: "string list option"
  whitelistedUsers :: "string list option"
  ownerOnly :: "bool option"
  guildOnly :: "bool option"
  dmOnly :: "bool option"
  nsfw :: "bool option"
  permissions :: "strings option"
  userPermissions :: "strings option"
  botPermissions :: "strings option"

record Category = Settings +
  category_name :: string

text \<open>
  \<open>command.args\<close> is tested with \<open>typeof\<close> for a boolean and for a number; any other
  value passes both tests by.
\<close>

datatype args_requirement = ArgsBoolean bool | ArgsNumber int | ArgsOther

text \<open>
  The hooks: \<open>beforeExecute\<close> and \<open>execute\<close> are awaited, so a synchronous throw and a
  rejection are the same \<open>Inl\<close>; \<open>afterExecute\<close> is called and not awaited, so only what
  it throws while being called is seen.
\<close>

record ('e, 'r) Command = Settings +
  command_name :: string
  category :: "string option"
  command_args :: "args_requirement option"
  beforeExecute :: "'e CommandContext \<Rightarrow> 'e + bool"
  execute :: "'e CommandContext \<Rightarrow> 'e + 'r"
  afterExecute :: "'e CommandContext \<Rightarrow> 'r \<Rightarrow> 'e option"

record ClientUser =
  mention :: string
  nickMention :: string

text \<open>
  The client. \<open>parseCommand\<close>, \<open>commands.fetch\<close> and \<open>categories.get\<close> live in command.ts
  and are taken as given; the prefix providers and blacklist predicates are the awaited
  callbacks of the options.
\<close>

record ('e, 'r) CommandClient =
  prefix :: strings
  mentionPrefix :: bool
  getGuildPrefix :: "string \<Rightarrow> strings option"
  getUserPrefix :: "string \<Rightarrow> strings option"
  isGuildBlacklisted :: "string \<Rightarrow> bool"
  isUserBlacklisted :: "string \<Rightarrow> bool"
  isChannelBlacklisted :: "string \<Rightarrow> bool"
  owners :: "string list"
  allowBots :: bool
  user :: "ClientUser option"
  parseCommand :: "'e Message \<Rightarrow> string \<Rightarrow> ParsedCommand option"
  commands_fetch :: "ParsedCommand \<Rightarrow> ('e, 'r) Command option"
  categories_get :: "string \<Rightarrow> Category option"

subsection \<open>What a run of processMessage does\<close>

datatype 'e event =
  commandOwnerOnly "'e CommandContext"
| commandGuildOnly "'e CommandContext"
| commandDmOnly "'e CommandContext"
| commandNSFW "'e CommandContext"
| commandBotMissingPermissions "'e CommandContext" "string list"
| commandUserMissingPermissions "'e CommandContext" "string list"
| commandMissingArgs "'e CommandContext"
| commandUsed "'e CommandContext"
| commandError "'e CommandContext" 'e

datatype query =
  IsUserBlacklisted string | IsChannelBlacklisted string | IsGuildBlacklisted string
| GetUserPrefix string | GetGuildPrefix string

text \<open>
  The trace of a run, in order: callbacks awaited, the fetch \<open>guild.me()\<close>, events
  emitted, hooks invoked. \<open>emit\<close> hands the event to the listeners and goes on.
\<close>

datatype ('e, 'r) action =
  Await query
| GuildMe string
| Emit "'e event"
| BeforeExecute "'e CommandContext"
| Execute "'e CommandContext"
| AfterExecute "'e CommandContext" 'r

text \<open>A piece of the function body ends by falling through, by \<open>return\<close>, or by throwing.\<close>

datatype ('e, 'a) step = Next 'a | Return | Throw 'e

definition then_do ::
  "('e, 'r) action list \<times> ('e, 'a) step \<Rightarrow> ('a \<Rightarrow> ('e, 'r) action list \<times> ('e, 'b) step)
    \<Rightarrow> ('e, 'r) action list \<times> ('e, 'b) step" where
  "then_do m f =
     (case m of
        (t, Next a) \<Rightarrow> (case f a of (t', s) \<Rightarrow> (t @ t', s))
      | (t, Return) \<Rightarrow> (t, Return)
      | (t, Throw e) \<Rightarrow> (t, Throw e))"

fun events :: "('e, 'r) action list \<Rightarrow> 'e event list" where
  "events [] = []"
| "events (Emit ev # t) = ev # events t"
| "events (a # t) = events t"

fun is_hook :: "('e, 'r) action \<Rightarrow> bool" where
  "is_hook (BeforeExecute ctx) = True"
| "is_hook (Execute ctx) = True"
| "is_hook (AfterExecute ctx r) = True"
| "is_hook a = False"

fun is_after :: "('e, 'r) action \<Rightarrow> bool" where
  "is_after (AfterExecute ctx r) = True"
| "is_after a = False"

fun is_error :: "'e event \<Rightarrow> bool" where
  "is_error (commandError ctx e) = True"
| "is_error ev = False"

subsection \<open>processMessage, lines 130-147: bots and blacklists\<close>

definition blacklist_queries :: "'e Message \<Rightarrow> ('e, 'r) action list" where
  "blacklist_queries msg =
     [Await (IsUserBlacklisted (author_id msg)), Await (IsChannelBlacklisted (channel_id msg))]
     @ (case guild msg of None \<Rightarrow> [] | Some g \<Rightarrow> [Await (IsGuildBlacklisted (guild_id g))])"

definition blacklists ::
  "('e, 'r) CommandClient \<Rightarrow> 'e Message \<Rightarrow> ('e, 'r) action list \<times> ('e, unit) step" where
  "blacklists c msg =
     (if \<not> allowBots c \<and> author_bot msg then ([], Return)
      else if isUserBlacklisted c (author_id msg)
      then ([Await (IsUserBlacklisted (author_id msg))], Return)
      else if isChannelBlacklisted c (channel_id msg)
      then ([Await (IsUserBlacklisted (author_id msg)),
             Await (IsChannelBlacklisted (channel_id msg))], Return)
      else
        (case guild msg of
           None \<Rightarrow>
             ([Await (IsUserBlacklisted (author_id msg)),
               Await (IsChannelBlacklisted (channel_id msg))], Next ())
         | Some g \<Rightarrow>
             ([Await (IsUserBlacklisted (author_id msg)),
               Await (IsChannelBlacklisted (channel_id msg)),
               Await (IsGuildBlacklisted (guild_id g))],
              if isGuildBlacklisted c (guild_id g) then Return else Next ())))"

subsection \<open>Lines 149-187: the prefix\<close>

definition candidate_prefixes ::
  "('e, 'r) CommandClient \<Rightarrow> 'e Message \<Rightarrow> ('e, 'r) action list \<times> ('e, string list) step" where
  "candidate_prefixes c msg =
     (let prefix0 = [] @ array_of (prefix c);
          prefix1 = (case getUserPrefix c (author_id msg) of
                       None \<Rightarrow> prefix0
                     | Some userPrefix \<Rightarrow> prefix0 @ array_of userPrefix)
      in case guild msg of
           None \<Rightarrow> ([Await (GetUserPrefix (author_id msg))], Next (unique prefix1))
         | Some g \<Rightarrow>
             ([Await (GetUserPrefix (author_id msg)), Await (GetGuildPrefix (guild_id g))],
              Next (unique (case getGuildPrefix c (guild_id g) of
                              None \<Rightarrow> prefix1
                            | Some guildPrefix \<Rightarrow> prefix1 @ array_of guildPrefix))))"

text \<open>
  Lines 171-173: \<open>filter\<close>, then \<open>sort\<close> by descending length, then element 0 (which is
  \<open>undefined\<close> on an empty array). \<open>Array.prototype.sort\<close> is stable, as \<open>sort_key\<close> is.
\<close>

definition longest_match :: "string \<Rightarrow> string list \<Rightarrow> string option" where
  "longest_match text candidates =
     (case sort_key (\<lambda>v. - int (length v)) (filter (startsWith text) candidates) of
        [] \<Rightarrow> None
      | p # ps \<Rightarrow> Some p)"

text \<open>
  Lines 169-187. Without \<open>client.user\<close> both mentions are \<open>undefined\<close>, and whichever
  branch is taken leaves \<open>usedPrefix\<close> not a string: the function returns.
\<close>

definition used_prefix ::
  "('e, 'r) CommandClient \<Rightarrow> 'e Message \<Rightarrow> string list \<Rightarrow> ('e, 'r) action list \<times> ('e, string) step" where
  "used_prefix c msg candidates =
     (case longest_match (msg_content msg) candidates of
        Some usedPrefix \<Rightarrow> ([], Next usedPrefix)
      | None \<Rightarrow>
          if mentionPrefix c
          then (case user c of
                  None \<Rightarrow> ([], Return)
                | Some u \<Rightarrow>
                    if startsWith (msg_content msg) (mention u) then ([], Next (mention u))
                    else if startsWith (msg_content msg) (nickMention u)
                    then ([], Next (nickMention u))
                    else ([], Return))
          else ([], Return))"

subsection \<open>Lines 189-252: the command, the whitelists, the context\<close>

definition resolve_command ::
  "('e, 'r) CommandClient \<Rightarrow> 'e Message \<Rightarrow> string
    \<Rightarrow> ('e, 'r) action list \<times> ('e, ParsedCommand \<times> ('e, 'r) Command \<times> Category option) step" where
  "resolve_command c msg usedPrefix =
     (case parseCommand c msg usedPrefix of
        None \<Rightarrow> ([], Return)
      | Some parsed \<Rightarrow>
          (case commands_fetch c parsed of
             None \<Rightarrow> ([], Return)
           | Some command \<Rightarrow>
               ([], Next (parsed, command,
                          (case category command of
                             None \<Rightarrow> None
                           | Some cn \<Rightarrow> categories_get c cn)))))"

text \<open>\<open>category?.field\<close>: \<open>undefined\<close> without a category.\<close>

definition of_category :: "(Category \<Rightarrow> 'a option) \<Rightarrow> Category option \<Rightarrow> 'a option" where
  "of_category field cat = (case cat of None \<Rightarrow> None | Some k \<Rightarrow> field k)"

text \<open>One pair of whitelist tests; \<open>scope\<close> is the id tested, when there is one.\<close>

definition whitelist_drops ::
  "string list option \<Rightarrow> string list option \<Rightarrow> string option \<Rightarrow> bool" where
  "whitelist_drops own inherited scope =
     (case scope of
        None \<Rightarrow> False
      | Some x \<Rightarrow>
          (own = None \<and> (case inherited of None \<Rightarrow> False | Some w \<Rightarrow> x \<notin> set w))
          \<or> (case own of None \<Rightarrow> False | Some w \<Rightarrow> x \<notin> set w))"

definition whitelists ::
  "('e, 'r) Command \<Rightarrow> Category option \<Rightarrow> 'e Message \<Rightarrow> ('e, 'r) action list \<times> ('e, unit) step" where
  "whitelists command cat msg =
     (if whitelist_drops (whitelistedGuilds command) (of_category whitelistedGuilds cat)
           (map_option guild_id (guild msg))
      then ([], Return)
      else if whitelist_drops (whitelistedChannels command) (of_category whitelistedChannels cat)
           (Some (channel_id msg))
      then ([], Return)
      else if whitelist_drops (whitelistedUsers command) (of_category whitelistedUsers cat)
           (Some (author_id msg))
      then ([], Return)
      else ([], Next ()))"

definition make_context ::
  "'e Message \<Rightarrow> string \<Rightarrow> ParsedCommand \<Rightarrow> ('e, 'r) Command \<Rightarrow> 'e CommandContext" where
  "make_context msg usedPrefix parsed command =
     \<lparr> ctx_name = parsed_name parsed, ctx_prefix = usedPrefix, ctx_args = args parsed,
       ctx_argString = argString parsed, ctx_message = msg, ctx_author = author_id msg,
       ctx_command = command_name command, ctx_channel = channel_id msg,
       ctx_guild = guild msg \<rparr>"

text \<open>
  Everything up to the context: each way out of here is a plain \<open>return\<close>. What is handed
  on is the parsed command, the command, its category and the context.
\<close>

definition admit ::
  "('e, 'r) CommandClient \<Rightarrow> 'e Message
    \<Rightarrow> ('e, 'r) action list
        \<times> ('e, ParsedCommand \<times> ('e, 'r) Command \<times> Category option \<times> 'e CommandContext) step" where
  "admit c msg =
     then_do (blacklists c msg) (\<lambda>_.
     then_do (candidate_prefixes c msg) (\<lambda>candidates.
     then_do (used_prefix c msg candidates) (\<lambda>usedPrefix.
     then_do (resolve_command c msg usedPrefix) (\<lambda>(parsed, command, cat).
     then_do (whitelists command cat msg) (\<lambda>_.
       ([], Next (parsed, command, cat, make_context msg usedPrefix parsed command)))))))"

subsection \<open>Lines 254-287: the scope flags\<close>

text \<open>
  \<open>command.f !== undefined || category === undefined ? command.f : category.f\<close>, where
  \<open>inherited\<close> is \<open>None\<close> without a category and the category's setting otherwise.
\<close>

definition scope_flag :: "bool option \<Rightarrow> bool option option \<Rightarrow> bool option" where
  "scope_flag own inherited =
     (case inherited of
        None \<Rightarrow> own
      | Some theirs \<Rightarrow> if own \<noteq> None then own else theirs)"

definition scope_flags ::
  "('e, 'r) CommandClient \<Rightarrow> 'e Message \<Rightarrow> ('e, 'r) Command \<Rightarrow> Category option
    \<Rightarrow> 'e CommandContext \<Rightarrow> ('e, 'r) action list \<times> ('e, unit) step" where
  "scope_flags c msg command cat ctx =
     (if scope_flag (ownerOnly command) (map_option ownerOnly cat) = Some True
         \<and> author_id msg \<notin> set (owners c)
      then ([Emit (commandOwnerOnly ctx)], Return)
      else if scope_flag (guildOnly command) (map_option guildOnly cat) = Some True
         \<and> guild msg = None
      then ([Emit (commandGuildOnly ctx)], Return)
      else if scope_flag (dmOnly command) (map_option dmOnly cat) = Some True
         \<and> guild msg \<noteq> None
      then ([Emit (commandDmOnly ctx)], Return)
      else if nsfw command = Some True \<and> (guild msg = None \<or> \<not> channel_nsfw msg)
      then ([Emit (commandNSFW ctx)], Return)
      else ([], Next ()))"

subsection \<open>Lines 289-349: permissions\<close>

definition allPermissions :: "('e, 'r) Command \<Rightarrow> Category option \<Rightarrow> strings option" where
  "allPermissions command cat =
     (case permissions command of
        Some p \<Rightarrow> Some p
      | None \<Rightarrow> of_category permissions cat)"

text \<open>
  \<open>new Set(a, b, \<dots>)\<close> builds the set from its first argument alone, and that argument
  is iterated: a string gives its characters. Without any argument the set is empty.
\<close>

definition new_Set :: "string list \<Rightarrow> string list" where
  "new_Set arguments =
     (case arguments of
        [] \<Rightarrow> []
      | first # others \<Rightarrow> unique (map (\<lambda>ch. [ch]) first))"

text \<open>Lines 311-312 and 336-337.\<close>

definition with_all :: "string list \<Rightarrow> strings option \<Rightarrow> string list" where
  "with_all perms allPerms =
     (case allPerms of
        None \<Rightarrow> perms
      | Some ap \<Rightarrow> new_Set (perms @ spread ap))"

definition bot_permissions ::
  "'e Message \<Rightarrow> ('e, 'r) Command \<Rightarrow> Category option \<Rightarrow> 'e CommandContext
    \<Rightarrow> ('e, 'r) action list \<times> ('e, unit) step" where
  "bot_permissions msg command cat ctx =
     (case guild msg of
        None \<Rightarrow> ([], Next ())
      | Some g \<Rightarrow>
          if botPermissions command \<noteq> None \<or> of_category permissions cat \<noteq> None
          then
            (case me g of
               Inl e \<Rightarrow> ([GuildMe (guild_id g)], Throw e)
             | Inr has \<Rightarrow>
                 (case (case botPermissions command of
                          None \<Rightarrow> of_category permissions cat
                        | Some p \<Rightarrow> Some p) of
                    None \<Rightarrow> ([GuildMe (guild_id g)], Next ())
                  | Some p \<Rightarrow>
                      (let missing = filter (\<lambda>perm. \<not> has perm)
                                       (with_all (array_of p) (allPermissions command cat))
                       in if missing \<noteq> []
                          then ([GuildMe (guild_id g),
                                 Emit (commandBotMissingPermissions ctx missing)], Return)
                          else ([GuildMe (guild_id g)], Next ()))))
          else ([], Next ()))"

definition user_permissions ::
  "'e Message \<Rightarrow> ('e, 'r) Command \<Rightarrow> Category option \<Rightarrow> 'e CommandContext
    \<Rightarrow> ('e, 'r) action list \<times> ('e, unit) step" where
  "user_permissions msg command cat ctx =
     (if (userPermissions command \<noteq> None \<or> of_category userPermissions cat \<noteq> None)
         \<and> guild msg \<noteq> None
      then
        (case (case userPermissions command of
                 Some p \<Rightarrow> Some p
               | None \<Rightarrow> of_category userPermissions cat) of
           None \<Rightarrow> ([], Next ())
         | Some p \<Rightarrow>
             (let missing = filter (\<lambda>perm. \<not> (case member msg of None \<Rightarrow> False | Some has \<Rightarrow> has perm))
                              (with_all (array_of p) (allPermissions command cat))
              in if missing \<noteq> []
                 then ([Emit (commandUserMissingPermissions ctx missing)], Return)
                 else ([], Next ())))
      else ([], Next ()))"

subsection \<open>Lines 351-359: the arguments\<close>

definition arity ::
  "('e, 'r) Command \<Rightarrow> ParsedCommand \<Rightarrow> 'e CommandContext
    \<Rightarrow> ('e, 'r) action list \<times> ('e, unit) step" where
  "arity command parsed ctx =
     (case command_args command of
        None \<Rightarrow> ([], Next ())
      | Some (ArgsBoolean b) \<Rightarrow>
          if length (args parsed) = 0 then ([Emit (commandMissingArgs ctx)], Return)
          else ([], Next ())
      | Some (ArgsNumber n) \<Rightarrow>
          if int (length (args parsed)) < n then ([Emit (commandMissingArgs ctx)], Next ())
          else ([], Next ())
      | Some ArgsOther \<Rightarrow> ([], Next ()))"

subsection \<open>Lines 361-371: the hooks\<close>

definition lifecycle ::
  "('e, 'r) Command \<Rightarrow> 'e CommandContext \<Rightarrow> ('e, 'r) action list \<times> ('e, unit) step" where
  "lifecycle command ctx =
     (case beforeExecute command ctx of
        Inl e \<Rightarrow>
          ([Emit (commandUsed ctx), BeforeExecute ctx, Emit (commandError ctx e)], Next ())
      | Inr ok \<Rightarrow>
          if ok = False then ([Emit (commandUsed ctx), BeforeExecute ctx], Return)
          else
            (case execute command ctx of
               Inl e \<Rightarrow>
                 ([Emit (commandUsed ctx), BeforeExecute ctx, Execute ctx,
                   Emit (commandError ctx e)], Next ())
             | Inr r \<Rightarrow>
                 (case afterExecute command ctx r of
                    Some e \<Rightarrow>
                      ([Emit (commandUsed ctx), BeforeExecute ctx, Execute ctx,
                        AfterExecute ctx r, Emit (commandError ctx e)], Next ())
                  | None \<Rightarrow>
                      ([Emit (commandUsed ctx), BeforeExecute ctx, Execute ctx,
                        AfterExecute ctx r], Next ()))))"

subsection \<open>processMessage\<close>

text \<open>The gates between the context and the argument check (lines 254-349).\<close>

definition gates ::
  "('e, 'r) CommandClient \<Rightarrow> 'e Message \<Rightarrow> ('e, 'r) Command \<Rightarrow> Category option
    \<Rightarrow> 'e CommandContext \<Rightarrow> ('e, 'r) action list \<times> ('e, unit) step" where
  "gates c msg command cat ctx =
     then_do (scope_flags c msg command cat ctx) (\<lambda>_.
     then_do (bot_permissions msg command cat ctx) (\<lambda>_.
     user_permissions msg command cat ctx))"

text \<open>
  Lines 130-359: everything before the \<open>try\<close>. What reaches the hooks is the command and
  the context.
\<close>

definition dispatch ::
  "('e, 'r) CommandClient \<Rightarrow> 'e Message
    \<Rightarrow> ('e, 'r) action list \<times> ('e, ('e, 'r) Command \<times> 'e CommandContext) step" where
  "dispatch c msg =
     then_do (admit c msg) (\<lambda>(parsed, command, cat, ctx).
     then_do (gates c msg command cat ctx) (\<lambda>_.
     then_do (arity command parsed ctx) (\<lambda>_.
       ([], Next (command, ctx)))))"

definition process ::
  "('e, 'r) CommandClient \<Rightarrow> 'e Message \<Rightarrow> ('e, 'r) action list \<times> ('e, unit) step" where
  "process c msg = then_do (dispatch c msg) (\<lambda>(command, ctx). lifecycle command ctx)"

text \<open>
  The promise \<open>processMessage\<close> returns either resolves (\<open>None\<close>) or rejects with what was
  thrown; with it goes the trace of the run.
\<close>

definition processMessage ::
  "('e, 'r) CommandClient \<Rightarrow> 'e Message \<Rightarrow> ('e, 'r) action list \<times> 'e option" where
  "processMessage c msg =
     (case process c msg of
        (t, Throw e) \<Rightarrow> (t, Some e)
      | (t, s) \<Rightarrow> (t, None))"

section \<open>Notions the properties are stated with\<close>

text \<open>The successive values of \<open>responded\<close> over a series of \<open>respond\<close> calls, each with
  its own transport behaviour and payload.\<close>

fun respond_seq ::
  "32 word \<Rightarrow> ('u, 'm, 'c, 'r) Interaction
    \<Rightarrow> ((('emb, 'f, 'am) rest_call \<Rightarrow> 'e + 'resp) \<times> ('emb, 'am) InteractionResponse) list
    \<Rightarrow> bool list" where
  "respond_seq E i [] = [responded i]"
| "respond_seq E i (c # cs) = responded i # respond_seq E (after (respond (fst c) E i (snd c))) cs"

text \<open>How often a series of booleans goes from false to true.\<close>

fun rises :: "bool list \<Rightarrow> nat" where
  "rises (a # b # bs) = (if \<not> a \<and> b then 1 else 0) + rises (b # bs)"
| "rises bs = 0"

text \<open>
  The embeds a call of \<open>send\<close> would post: of an options object its single \<open>embed\<close> when
  it has one, else its \<open>embeds\<close>; an \<open>Embed\<close> passed bare; none for a string. An object in
  first position takes the place of the second argument.
\<close>

fun embeds_of :: "('emb, 'f, 'am) send_arg \<Rightarrow> 'emb list" where
  "embeds_of (Text s) = []"
| "embeds_of (AnEmbed e) = [e]"
| "embeds_of (Options x) =
     (case wh_embed x of
        Some e \<Rightarrow> [e]
      | None \<Rightarrow> (case wh_embeds x of None \<Rightarrow> [] | Some es \<Rightarrow> es))"

definition embeds_sent ::
  "('emb, 'f, 'am) send_arg option \<Rightarrow> ('emb, 'f, 'am) send_arg option \<Rightarrow> 'emb list" where
  "embeds_sent text opt =
     (case text of
        Some (Options x) \<Rightarrow> embeds_of (Options x)
      | Some (AnEmbed e) \<Rightarrow> [e]
      | _ \<Rightarrow> (case opt of None \<Rightarrow> [] | Some a \<Rightarrow> embeds_of a))"

text \<open>The global, user-scoped and guild-scoped prefixes of a message, duplicates and all.\<close>

definition prefix_sources :: "('e, 'r) CommandClient \<Rightarrow> 'e Message \<Rightarrow> string list" where
  "prefix_sources c msg =
     array_of (prefix c)
     @ (case getUserPrefix c (author_id msg) of None \<Rightarrow> [] | Some p \<Rightarrow> array_of p)
     @ (case guild msg of
          None \<Rightarrow> []
        | Some g \<Rightarrow> (case getGuildPrefix c (guild_id g) of None \<Rightarrow> [] | Some p \<Rightarrow> array_of p))"

text \<open>What follows the context: the gates, the argument check, the hooks (lines 254-371).\<close>

definition hooks_from ::
  "('e, 'r) CommandClient \<Rightarrow> 'e Message \<Rightarrow> ParsedCommand \<Rightarrow> ('e, 'r) Command \<Rightarrow> Category option
    \<Rightarrow> 'e CommandContext \<Rightarrow> ('e, 'r) action list \<times> ('e, unit) step" where
  "hooks_from c msg parsed command cat ctx =
     then_do (gates c msg command cat ctx) (\<lambda>_.
     then_do (arity command parsed ctx) (\<lambda>_. lifecycle command ctx))"

text \<open>Actions of the hook stage: the hooks, and the events \<open>commandUsed\<close> and \<open>commandError\<close>.\<close>

fun is_lifecycle :: "('e, 'r) action \<Rightarrow> bool" where
  "is_lifecycle (BeforeExecute ctx) = True"
| "is_lifecycle (Execute ctx) = True"
| "is_lifecycle (AfterExecute ctx r) = True"
| "is_lifecycle (Emit (commandUsed ctx)) = True"
| "is_lifecycle (Emit (commandError ctx e)) = True"
| "is_lifecycle a = False"

text \<open>Actions that leave the process or reach user code: events, hooks, the fetch.\<close>

fun is_observable :: "('e, 'r) action \<Rightarrow> bool" where
  "is_observable (Await q) = False"
| "is_observable a = True"

text \<open>The context an event carries, and the context an action of the trace carries, if any.\<close>

fun event_context :: "'e event \<Rightarrow> 'e CommandContext" where
  "event_context (commandOwnerOnly ctx) = ctx"
| "event_context (commandGuildOnly ctx) = ctx"
| "event_context (commandDmOnly ctx) = ctx"
| "event_context (commandNSFW ctx) = ctx"
| "event_context (commandBotMissingPermissions ctx missing) = ctx"
| "event_context (commandUserMissingPermissions ctx missing) = ctx"
| "event_context (commandMissingArgs ctx) = ctx"
| "event_context (commandUsed ctx) = ctx"
| "event_context (commandError ctx e) = ctx"

fun action_context :: "('e, 'r) action \<Rightarrow> 'e CommandContext option" where
  "action_context (Await q) = None"
| "action_context (GuildMe g) = None"
| "action_context (Emit ev) = Some (event_context ev)"
| "action_context (BeforeExecute ctx) = Some ctx"
| "action_context (Execute ctx) = Some ctx"
| "action_context (AfterExecute ctx r) = Some ctx"

section \<open>Sample values\<close>

definition ex_interaction :: "(string, unit, unit, unit) Interaction" where
  "ex_interaction =
     \<lparr> interaction_id = ''1'', token = ''t'',
       data = Some \<lparr> data_name = ''ban'',
                     options = Some [\<lparr> name = ''target'', type = USER, value = Some (Str ''123'') \<rparr>,
                                     \<lparr> name = ''days'', type = OTHER_TYPE 4, value = Some (Num 7) \<rparr>] \<rparr>,
       responded = False,
       resolved = \<lparr> users = [''123'' \<mapsto> ''alice''], members = Map.empty,
                    channels = Map.empty, roles = Map.empty \<rparr>,
       client_user_id = Some ''42'' \<rparr>"

definition ex_response :: "(nat, unit) InteractionResponse" where
  "ex_response =
     \<lparr> content = Some ''pong'', embeds = None, tts = None, flags = None,
       allowedMentions = None, withSource = None, response_type = None, temp = None,
       ephemeral = Some True \<rparr>"

definition accepting :: "(nat, unit, unit) rest_call \<Rightarrow> string + string" where
  "accepting call = Inr ''ok''"

definition rejecting :: "(nat, unit, unit) rest_call \<Rightarrow> string + string" where
  "rejecting call = Inl ''503''"

definition eleven :: "(nat, unit, unit) WebhookMessageOptions" where
  "eleven =
     \<lparr> wh_embed = None, wh_embeds = Some [1, 2, 3, 4, 5, 6, 7, 8, 9, 10, 11], wh_file = None,
       wh_tts = None, wh_allowedMentions = None, wh_name = None, wh_avatar = None \<rparr>"

definition one_and_eleven :: "(nat, unit, unit) WebhookMessageOptions" where
  "one_and_eleven = eleven \<lparr> wh_embed := Some 0 \<rparr>"

text \<open>
  A client whose parser takes everything after the prefix as the command name, with no
  arguments, and whose registry holds a handful of commands without category.
\<close>

definition plain :: "(string, nat) Command" where
  "plain =
     \<lparr> whitelistedGuilds = None, whitelistedChannels = None, whitelistedUsers = None,
       ownerOnly = None, guildOnly = None, dmOnly = None, nsfw = None,
       permissions = None, userPermissions = None, botPermissions = None,
       command_name = ''ping'', category = None, command_args = None,
       beforeExecute = (\<lambda>ctx. Inr True), execute = (\<lambda>ctx. Inr 0),
       afterExecute = (\<lambda>ctx r. None) \<rparr>"

definition boom :: "(string, nat) Command" where
  "boom = plain \<lparr> command_name := ''boom'', execute := (\<lambda>ctx. Inl ''oops'') \<rparr>"

definition grumpy :: "(string, nat) Command" where
  "grumpy = plain \<lparr> command_name := ''grumpy'', beforeExecute := (\<lambda>ctx. Inl ''no'') \<rparr>"

definition ban :: "(string, nat) Command" where
  "ban = plain \<lparr> command_name := ''ban'', permissions := Some (Many [''KICK_MEMBERS'']),
                  botPermissions := Some (Many [''BAN_MEMBERS'']) \<rparr>"

definition lewd :: "(string, nat) Command" where
  "lewd = plain \<lparr> command_name := ''lewd'', nsfw := Some True \<rparr>"

definition say :: "(string, nat) Command" where
  "say = plain \<lparr> command_name := ''say'', command_args := Some (ArgsBoolean True) \<rparr>"

definition add :: "(string, nat) Command" where
  "add = plain \<lparr> command_name := ''add'', command_args := Some (ArgsNumber 2) \<rparr>"

text \<open>A category that asks for a bot permission, and a command of that category.\<close>

definition moderation :: Category where
  "moderation =
     \<lparr> whitelistedGuilds = None, whitelistedChannels = None, whitelistedUsers = None,
       ownerOnly = None, guildOnly = None, dmOnly = None, nsfw = None,
       permissions = None, userPermissions = None,
       botPermissions = Some (Many [''KICK_MEMBERS'']), category_name = ''moderation'' \<rparr>"

definition kick :: "(string, nat) Command" where
  "kick = plain \<lparr> command_name := ''kick'', category := Some ''moderation'' \<rparr>"

definition registry :: "(string, nat) Command list" where
  "registry = [plain, boom, grumpy, ban, lewd, say, add, kick]"

definition parse :: "string Message \<Rightarrow> string \<Rightarrow> ParsedCommand" where
  "parse msg p = \<lparr> parsed_name = drop (length p) (msg_content msg), args = [], argString = [] \<rparr>"

definition ex_client :: "(string, nat) CommandClient" where
  "ex_client =
     \<lparr> prefix = Many [''!'', ''!!''], mentionPrefix = False,
       getGuildPrefix = (\<lambda>g. Some (One ''?'')),
       getUserPrefix = (\<lambda>u. Some (Many [''!'', ''!!''])),
       isGuildBlacklisted = (\<lambda>g. False),
       isUserBlacklisted = (\<lambda>u. u = ''spammer''),
       isChannelBlacklisted = (\<lambda>ch. False),
       owners = [''owner''], allowBots = False,
       user = Some \<lparr> mention = ''<@42>'', nickMention = ''<@!42>'' \<rparr>,
       parseCommand = (\<lambda>msg p. Some (parse msg p)),
       commands_fetch = (\<lambda>parsed. find (\<lambda>cmd. command_name cmd = parsed_name parsed) registry),
       categories_get = (\<lambda>n. if n = ''moderation'' then Some moderation else None) \<rparr>"

text \<open>A guild in which the bot has no permission at all.\<close>

definition ex_guild :: "string Guild" where
  "ex_guild = \<lparr> guild_id = ''g1'', me = Inr (\<lambda>perm. False) \<rparr>"

definition in_guild :: "string \<Rightarrow> string \<Rightarrow> string Message" where
  "in_guild who text =
     \<lparr> msg_content = text, author_id = who, author_bot = False, channel_id = ''general'',
       channel_nsfw = False, guild = Some ex_guild, member = Some (\<lambda>perm. True) \<rparr>"

definition direct :: "string \<Rightarrow> string \<Rightarrow> string Message" where
  "direct who text =
     \<lparr> msg_content = text, author_id = who, author_bot = False, channel_id = ''dm'',
       channel_nsfw = False, guild = None, member = None \<rparr>"


section \<open>Properties of Interaction\<close>

subsection \<open>option\<close>

lemma find_first:
  "xs = pre @ x # post \<Longrightarrow> \<forall>e\<in>set pre. \<not> P e \<Longrightarrow> P x \<Longrightarrow> find P xs = Some x"
  by (induction pre arbitrary: xs) auto

lemma find_absent: "\<forall>e\<in>set xs. \<not> P e \<Longrightarrow> find P xs = None"
  by (induction xs) auto

text \<open>
  C9. \<open>option\<close> is a total function: it has no failing branch. When no top-level option
  bears the name, the result is \<open>undefined\<close>. Otherwise let \<open>op\<close> be the first option
  bearing it: without a value the result is \<open>undefined\<close>; for kind user, role or channel
  it is what the matching resolved table holds under the raw value taken as key (and
  \<open>undefined\<close> if the table has no such key); for any other kind it is the raw value.
\<close>

theorem option_lookup:
  "((\<forall>e\<in>set (get_options i). name e \<noteq> n) \<longrightarrow> option i n = Undefined)
   \<and> (get_options i = pre @ op # post \<and> (\<forall>e\<in>set pre. name e \<noteq> n) \<and> name op = n \<longrightarrow>
        option i n =
          (case value op of
             None \<Rightarrow> Undefined
           | Some v \<Rightarrow>
               if type op = USER
               then (case users (resolved i) (property_key v) of
                       None \<Rightarrow> Undefined | Some u \<Rightarrow> AUser u)
               else if type op = ROLE
               then (case roles (resolved i) (property_key v) of
                       None \<Rightarrow> Undefined | Some r \<Rightarrow> ARole r)
               else if type op = CHANNEL
               then (case channels (resolved i) (property_key v) of
                       None \<Rightarrow> Undefined | Some ch \<Rightarrow> AChannel ch)
               else Raw v))"
proof (intro conjI impI)
  assume "\<forall>e\<in>set (get_options i). name e \<noteq> n"
  then have "find (\<lambda>e. name e = n) (get_options i) = None"
    by (simp add: find_absent)
  then show "option i n = Undefined"
    by (simp add: option_def)
next
  assume h: "get_options i = pre @ op # post \<and> (\<forall>e\<in>set pre. name e \<noteq> n) \<and> name op = n"
  then have "find (\<lambda>e. name e = n) (get_options i) = Some op"
    using find_first [of "get_options i" pre op post "\<lambda>e. name e = n"] by simp
  then show "option i n =
          (case value op of
             None \<Rightarrow> Undefined
           | Some v \<Rightarrow>
               if type op = USER
               then (case users (resolved i) (property_key v) of
                       None \<Rightarrow> Undefined | Some u \<Rightarrow> AUser u)
               else if type op = ROLE
               then (case roles (resolved i) (property_key v) of
                       None \<Rightarrow> Undefined | Some r \<Rightarrow> ARole r)
               else if type op = CHANNEL
               then (case channels (resolved i) (property_key v) of
                       None \<Rightarrow> Undefined | Some ch \<Rightarrow> AChannel ch)
               else Raw v)"
    by (simp add: option_def index_def split: option.splits)
qed

theorem option_lookup_witness:
  "option ex_interaction ''missing'' = Undefined
   \<and> option ex_interaction ''target'' = AUser ''alice''
   \<and> option ex_interaction ''days'' = Raw (Num 7)"
  using
    option_lookup [of ex_interaction "''missing''" "[]"
      "\<lparr> name = ''target'', type = USER, value = Some (Str ''123'') \<rparr>" "[]"]
    option_lookup [of ex_interaction "''target''" "[]"
      "\<lparr> name = ''target'', type = USER, value = Some (Str ''123'') \<rparr>"
      "[\<lparr> name = ''days'', type = OTHER_TYPE 4, value = Some (Num 7) \<rparr>]"]
    option_lookup [of ex_interaction "''days''"
      "[\<lparr> name = ''target'', type = USER, value = Some (Str ''123'') \<rparr>]"
      "\<lparr> name = ''days'', type = OTHER_TYPE 4, value = Some (Num 7) \<rparr>" "[]"]
  by (simp add: ex_interaction_def get_options_def)

subsection \<open>respond\<close>

lemma respond_keeps_responded:
  "responded i \<Longrightarrow> after (respond post E i d) = i"
  by (simp add: respond_def)

lemma respond_seq_hd: "respond_seq E i cs \<noteq> [] \<and> hd (respond_seq E i cs) = responded i"
  by (cases cs) auto

lemma rises_responded: "responded i \<Longrightarrow> rises (respond_seq E i cs) = 0"
proof (induction cs arbitrary: i)
  case Nil
  then show ?case by simp
next
  case (Cons c cs)
  let ?j = "after (respond (fst c) E i (snd c))"
  have j: "?j = i" using Cons.prems by (rule respond_keeps_responded)
  obtain b bs where bs: "respond_seq E i cs = b # bs" and b: "b = responded i"
    using respond_seq_hd [of E i cs] by (cases "respond_seq E i cs") auto
  have "rises (respond_seq E i cs) = 0" using Cons.IH Cons.prems by simp
  then show ?case using j bs b Cons.prems by simp
qed

lemma rises_le_one: "rises (respond_seq E i cs) \<le> 1"
proof (induction cs arbitrary: i)
  case Nil
  then show ?case by simp
next
  case (Cons c cs)
  let ?j = "after (respond (fst c) E i (snd c))"
  obtain b bs where bs: "respond_seq E ?j cs = b # bs" and b: "b = responded ?j"
    using respond_seq_hd [of E ?j cs] by (cases "respond_seq E ?j cs") auto
  show ?case
  proof (cases "responded ?j")
    case True
    then have "rises (respond_seq E ?j cs) = 0" by (rule rises_responded)
    then show ?thesis using bs by simp
  next
    case False
    then show ?thesis using bs b Cons.IH [of ?j] by simp
  qed
qed

text \<open>
  C1, as the code has it. On an Interaction whose \<open>responded\<close> is false, \<open>respond\<close>
  issues exactly one outbound call; if that call returns, \<open>responded\<close> becomes true and
  \<open>respond\<close> succeeds; if it throws, \<open>responded\<close> stays false and \<open>respond\<close> throws the
  same. On an Interaction whose \<open>responded\<close> is true, \<open>respond\<close> throws
  \<open>Already responded to Interaction\<close>, issues no call and leaves the Interaction as it
  was. Over any series of \<open>respond\<close> calls, \<open>responded\<close> goes from false to true at most
  once.
\<close>

theorem respond_once:
  "(\<not> responded i \<longrightarrow>
      issued (respond post E i d) = [respond_call E i d]
      \<and> (case post (respond_call E i d) of
            Inr resp \<Rightarrow>
              responded (after (respond post E i d)) \<and> result (respond post E i d) = Inr ()
          | Inl e \<Rightarrow>
              \<not> responded (after (respond post E i d))
              \<and> result (respond post E i d) = Inl (Rejected e)))
   \<and> (responded i \<longrightarrow>
        issued (respond post E i d) = []
        \<and> result (respond post E i d) = Inl (Error ''Already responded to Interaction'')
        \<and> after (respond post E i d) = i)
   \<and> rises (respond_seq E i cs) \<le> 1"
proof -
  have "rises (respond_seq E i cs) \<le> 1" by (rule rises_le_one)
  then show ?thesis by (simp add: respond_def split: sum.splits)
qed

theorem respond_once_witness:
  "issued (respond accepting 64 ex_interaction ex_response)
     = [respond_call 64 ex_interaction ex_response]
   \<and> responded (after (respond accepting 64 ex_interaction ex_response))
   \<and> issued (respond accepting 64 (ex_interaction \<lparr> responded := True \<rparr>) ex_response) = []
   \<and> result (respond accepting 64 (ex_interaction \<lparr> responded := True \<rparr>) ex_response)
       = Inl (Error ''Already responded to Interaction'')
   \<and> rises (respond_seq 64 ex_interaction
              [(rejecting, ex_response), (accepting, ex_response), (accepting, ex_response)]) \<le> 1"
  using
    respond_once [of ex_interaction accepting 64 ex_response
      "[(rejecting, ex_response), (accepting, ex_response), (accepting, ex_response)]"]
    respond_once [of "ex_interaction \<lparr> responded := True \<rparr>" accepting 64 ex_response "[]"]
  by (simp add: ex_interaction_def accepting_def)

text \<open>
  C1 at a throwing transport: \<open>responded\<close> was false, one call went out, and
  \<open>responded\<close> is still false.
\<close>

theorem respond_sets_responded_counterexample:
  "\<not> responded ex_interaction
   \<and> issued (respond rejecting 64 ex_interaction ex_response)
       = [respond_call 64 ex_interaction ex_response]
   \<and> \<not> responded (after (respond rejecting 64 ex_interaction ex_response))"
  by (simp add: respond_def rejecting_def ex_interaction_def)

text \<open>
  C10. \<open>responded\<close> is set only after the outbound call has returned: when the call
  throws on an Interaction not yet responded to, \<open>respond\<close> throws what the call threw
  and leaves the Interaction unchanged, \<open>responded\<close> false; a later \<open>respond\<close> on it is
  not refused: it issues its call, and if that returns it succeeds and sets \<open>responded\<close>.
\<close>

theorem respond_failure_atomic:
  "\<not> responded i \<and> post (respond_call E i d) = Inl e \<longrightarrow>
     result (respond post E i d) = Inl (Rejected e)
     \<and> after (respond post E i d) = i
     \<and> \<not> responded (after (respond post E i d))
     \<and> issued (respond post' E (after (respond post E i d)) d') = [respond_call E i d']
     \<and> (post' (respond_call E i d') = Inr resp \<longrightarrow>
          result (respond post' E (after (respond post E i d)) d') = Inr ()
          \<and> responded (after (respond post' E (after (respond post E i d)) d')))"
  by (simp add: respond_def split: sum.splits)

theorem respond_failure_atomic_witness:
  "result (respond rejecting 64 ex_interaction ex_response) = Inl (Rejected ''503'')
   \<and> \<not> responded (after (respond rejecting 64 ex_interaction ex_response))
   \<and> result (respond accepting 64 (after (respond rejecting 64 ex_interaction ex_response))
        ex_response) = Inr ()
   \<and> responded (after (respond accepting 64
        (after (respond rejecting 64 ex_interaction ex_response)) ex_response))"
proof -
  have h: "\<not> responded ex_interaction
           \<and> rejecting (respond_call 64 ex_interaction ex_response) = Inl ''503''"
    by (simp add: ex_interaction_def rejecting_def)
  have a: "accepting (respond_call 64 ex_interaction ex_response) = Inr ''ok''"
    by (simp add: accepting_def)
  show ?thesis
    using h a respond_failure_atomic [of ex_interaction rejecting 64 ex_response "''503''"
      accepting ex_response "''ok''"]
    by auto
qed

subsection \<open>send\<close>

lemma send_args_none:
  "(send_args text opt = (None, None)) = (text = None \<and> opt = None)"
  by (simp add: send_args_def split: option.splits send_arg.splits)

lemma payload_embeds_of:
  "(case p_embeds (send_payload t (Some a)) of None \<Rightarrow> False | Some es \<Rightarrow> 10 < length es)
     = (10 < length (embeds_of a))"
  by (cases a) (simp_all add: send_payload_def split: option.splits)

lemma payload_embeds_none:
  "p_embeds (send_payload t None) = None"
  by (simp add: send_payload_def)

lemma payload_embeds_sent:
  "(case p_embeds (send_payload (fst (send_args text opt)) (snd (send_args text opt))) of
      None \<Rightarrow> False | Some es \<Rightarrow> 10 < length es)
     = (10 < length (embeds_sent text opt))"
proof (cases "text")
  case None
  then show ?thesis
    by (cases opt) (simp_all add: send_args_def embeds_sent_def payload_embeds_none payload_embeds_of)
next
  case (Some a)
  then show ?thesis
  proof (cases a)
    case (Text s)
    then show ?thesis using Some
      by (cases opt) (simp_all add: send_args_def embeds_sent_def payload_embeds_none payload_embeds_of)
  next
    case (Options x)
    then show ?thesis using Some
      by (simp add: send_args_def embeds_sent_def payload_embeds_of del: embeds_of.simps)
  next
    case (AnEmbed e)
    then show ?thesis using Some
      by (simp add: send_args_def embeds_sent_def payload_embeds_of)
  qed
qed

lemma send_unfold:
  "send post i text opt =
     (if text = None \<and> opt = None
      then \<lparr> issued = [], after = i, result = Inl (Error ''Either text or option is necessary.'') \<rparr>
      else if 10 < length (embeds_sent text opt)
      then \<lparr> issued = [], after = i,
             result = Inl (Error ''Cannot send more than 10 embeds through Interaction Webhook'') \<rparr>
      else
        (let call = POST (URL (url i @ ''?wait=true''))
                      (MessageBody (send_payload (fst (send_args text opt)) (snd (send_args text opt))))
         in \<lparr> issued = [call], after = i,
              result = (case post call of Inl e \<Rightarrow> Inl (Rejected e) | Inr resp \<Rightarrow> Inr resp) \<rparr>))"
proof -
  obtain t' o' where so: "send_args text opt = (t', o')"
    by (cases "send_args text opt")
  have n: "(t' = None \<and> o' = None) = (text = None \<and> opt = None)"
    using send_args_none [of "text" opt] so by simp
  have e: "(case p_embeds (send_payload t' o') of None \<Rightarrow> False | Some es \<Rightarrow> 10 < length es)
             = (10 < length (embeds_sent text opt))"
    using payload_embeds_sent [of "text" opt] so by simp
  show ?thesis
  proof (cases "t' = None \<and> o' = None")
    case True
    then show ?thesis using n so by (simp add: send_def)
  next
    case False
    then have "send post i text opt =
        (let payload = send_payload t' o'
           in if (case p_embeds payload of None \<Rightarrow> False | Some es \<Rightarrow> length es > 10)
              then \<lparr> issued = [], after = i,
                     result = Inl (Error ''Cannot send more than 10 embeds through Interaction Webhook'') \<rparr>
              else
                (case post (POST (URL (url i @ ''?wait=true'')) (MessageBody payload)) of
                   Inl e \<Rightarrow>
                     \<lparr> issued = [POST (URL (url i @ ''?wait=true'')) (MessageBody payload)],
                       after = i, result = Inl (Rejected e) \<rparr>
                 | Inr resp \<Rightarrow>
                     \<lparr> issued = [POST (URL (url i @ ''?wait=true'')) (MessageBody payload)],
                       after = i, result = Inr resp \<rparr>))"
      using so by (cases t'; cases o') (simp_all add: send_def)
    then show ?thesis using False n e so
      by (simp add: Let_def split: sum.splits)
  qed
qed

lemma url_responded: "url (i\<lparr>responded := b\<rparr>) = url i"
  by (simp add: url_def)

text \<open>
  C8, as the code has it. If neither argument of \<open>send\<close> is supplied, it throws
  \<open>Either text or option is necessary.\<close> and issues no call. Otherwise, if the embeds it
  would post (the single \<open>embed\<close> option when there is one, else the \<open>embeds\<close> list)
  number more than 10, it throws \<open>Cannot send more than 10 embeds through Interaction
  Webhook\<close> and issues no call. Otherwise it issues exactly one post, to the follow-up
  address. It never changes the Interaction, and what it issues and returns is the same
  whatever \<open>responded\<close> is.
\<close>

theorem send_validation:
  "(text = None \<and> opt = None \<longrightarrow>
      issued (send post i text opt) = []
      \<and> result (send post i text opt) = Inl (Error ''Either text or option is necessary.''))
   \<and> (\<not> (text = None \<and> opt = None) \<and> 10 < length (embeds_sent text opt) \<longrightarrow>
        issued (send post i text opt) = []
        \<and> result (send post i text opt)
            = Inl (Error ''Cannot send more than 10 embeds through Interaction Webhook''))
   \<and> (\<not> (text = None \<and> opt = None) \<and> length (embeds_sent text opt) \<le> 10 \<longrightarrow>
        (\<exists>payload. issued (send post i text opt)
           = [POST (URL (url i @ ''?wait=true'')) (MessageBody payload)]))
   \<and> after (send post i text opt) = i
   \<and> issued (send post (i\<lparr>responded := b\<rparr>) text opt) = issued (send post i text opt)
   \<and> result (send post (i\<lparr>responded := b\<rparr>) text opt) = result (send post i text opt)"
  unfolding send_unfold url_responded
  by (simp add: Let_def)

theorem send_validation_witness:
  "issued (send accepting ex_interaction None None) = []
   \<and> result (send accepting ex_interaction None None)
       = Inl (Error ''Either text or option is necessary.'')
   \<and> issued (send accepting ex_interaction None (Some (Options eleven))) = []
   \<and> result (send accepting ex_interaction None (Some (Options eleven)))
       = Inl (Error ''Cannot send more than 10 embeds through Interaction Webhook'')
   \<and> length (issued (send accepting ex_interaction (Some (Text ''hello'')) None)) = 1
   \<and> issued (send accepting (ex_interaction \<lparr> responded := True \<rparr>) (Some (Text ''hello'')) None)
       = issued (send accepting ex_interaction (Some (Text ''hello'')) None)"
proof -
  have e: "length (embeds_sent None (Some (Options eleven))) = 11"
    by (simp add: embeds_sent_def eleven_def)
  have t: "length (embeds_sent (Some (Text ''hello'')) (None :: (nat, unit, unit) send_arg option)) = 0"
    by (simp add: embeds_sent_def)
  show ?thesis
    using e t
      send_validation [of None None accepting ex_interaction True]
      send_validation [of None "Some (Options eleven)" accepting ex_interaction True]
      send_validation [of "Some (Text ''hello'')" None accepting ex_interaction True]
    by auto
qed

text \<open>
  C8 at an options object that carries both a single \<open>embed\<close> and a list of eleven
  \<open>embeds\<close>: the list is passed over, nothing is thrown, and one post goes out.
\<close>

theorem send_eleven_embeds_counterexample:
  "wh_embeds one_and_eleven = Some [1, 2, 3, 4, 5, 6, 7, 8, 9, 10, 11]
   \<and> length (issued (send accepting ex_interaction None (Some (Options one_and_eleven)))) = 1
   \<and> result (send accepting ex_interaction None (Some (Options one_and_eleven))) = Inr ''ok''"
  by (simp add: send_def send_args_def send_payload_def one_and_eleven_def eleven_def
      accepting_def)

section \<open>Properties of processMessage\<close>

lemmas stage_defs = processMessage_def process_def dispatch_def admit_def gates_def then_do_def
  blacklists_def candidate_prefixes_def used_prefix_def longest_match_def resolve_command_def
  whitelists_def whitelist_drops_def of_category_def make_context_def scope_flags_def
  scope_flag_def bot_permissions_def user_permissions_def allPermissions_def with_all_def
  new_Set_def unique_def arity_def lifecycle_def startsWith_def

lemmas sample_defs = ex_client_def registry_def plain_def boom_def grumpy_def ban_def lewd_def
  say_def add_def kick_def moderation_def parse_def ex_guild_def in_guild_def direct_def

lemma then_do_Next: "snd m = Next a \<Longrightarrow> then_do m f = (fst m @ fst (f a), snd (f a))"
  by (cases m) (simp add: then_do_def split: prod.splits)

lemma then_do_Return: "snd m = Return \<Longrightarrow> then_do m f = (fst m, Return)"
  by (cases m) (simp add: then_do_def)

lemma then_do_Throw: "snd m = Throw e \<Longrightarrow> then_do m f = (fst m, Throw e)"
  by (cases m) (simp add: then_do_def)

lemma then_do_all:
  assumes "\<forall>a\<in>set (fst m). P a" and "\<And>x. \<forall>a\<in>set (fst (f x)). P a"
  shows "\<forall>a\<in>set (fst (then_do m f)). P a"
proof (cases "snd m")
  case (Next x)
  then show ?thesis using assms then_do_Next [OF Next, of f] by auto
next
  case Return
  then show ?thesis using assms then_do_Return [OF Return, of f] by auto
next
  case (Throw e)
  then show ?thesis using assms then_do_Throw [OF Throw, of f] by auto
qed

lemma events_append: "events (s @ t) = events s @ events t"
  by (induction s rule: events.induct) auto

lemma quiet_events: "\<forall>a\<in>set t. \<not> is_observable a \<Longrightarrow> events t = []"
  by (induction t rule: events.induct) auto

lemma quiet_hooks: "\<forall>a\<in>set t. \<not> is_observable a \<Longrightarrow> filter is_hook t = []"
  by (induction t rule: events.induct) auto

lemma quiet_fetch: "\<forall>a\<in>set t. \<not> is_observable a \<Longrightarrow> GuildMe g \<notin> set t"
  by (induction t rule: events.induct) auto

lemma blacklist_queries_quiet: "\<forall>a\<in>set (blacklist_queries msg). \<not> is_observable a"
  by (auto simp add: blacklist_queries_def split: option.splits)

lemma blacklists_drop:
  assumes "isUserBlacklisted c (author_id msg) \<or> isChannelBlacklisted c (channel_id msg)
           \<or> (\<exists>g. guild msg = Some g \<and> isGuildBlacklisted c (guild_id g))"
  shows "snd (blacklists c msg) = Return
         \<and> fst (blacklists c msg) \<in> {take 0 (blacklist_queries msg), take 1 (blacklist_queries msg),
               take 2 (blacklist_queries msg), take 3 (blacklist_queries msg)}"
proof (cases "guild msg")
  case None
  then show ?thesis using assms
    by (auto simp add: blacklists_def blacklist_queries_def)
next
  case (Some g)
  then show ?thesis using assms
    by (auto simp add: blacklists_def blacklist_queries_def)
qed

lemma process_Return:
  "snd (blacklists c msg) = Return \<Longrightarrow> processMessage c msg = (fst (blacklists c msg), None)"
  by (simp add: processMessage_def process_def dispatch_def admit_def then_do_Return)

text \<open>
  C7. When the user blacklist, the channel blacklist or, in a guild, the guild blacklist
  reports true, \<open>processMessage\<close> returns normally, and all it has done is to await
  blacklist predicates, in the order user, channel, guild, stopping at the first that
  reports true: no event is emitted, no hook is invoked, nothing is fetched.
\<close>

theorem blacklisted_silent:
  assumes "isUserBlacklisted c (author_id msg) \<or> isChannelBlacklisted c (channel_id msg)
           \<or> (\<exists>g. guild msg = Some g \<and> isGuildBlacklisted c (guild_id g))"
  shows "snd (processMessage c msg) = None
         \<and> (\<exists>k. fst (processMessage c msg) = take k (blacklist_queries msg))
         \<and> events (fst (processMessage c msg)) = []
         \<and> filter is_hook (fst (processMessage c msg)) = []
         \<and> (\<forall>g. GuildMe g \<notin> set (fst (processMessage c msg)))"
proof -
  have d: "snd (blacklists c msg) = Return" using blacklists_drop [OF assms] by simp
  have p: "processMessage c msg = (fst (blacklists c msg), None)"
    using d by (rule process_Return)
  have k: "\<exists>k. fst (processMessage c msg) = take k (blacklist_queries msg)"
    using blacklists_drop [OF assms] p by auto
  then obtain k where t: "fst (processMessage c msg) = take k (blacklist_queries msg)" ..
  have q: "\<forall>a\<in>set (fst (processMessage c msg)). \<not> is_observable a"
    using blacklist_queries_quiet [of msg] t by (auto dest: in_set_takeD)
  show ?thesis using p k quiet_events [OF q] quiet_hooks [OF q] quiet_fetch [OF q] by simp
qed


theorem blacklisted_silent_witness:
  "snd (processMessage ex_client (in_guild ''spammer'' ''!ping'')) = None
   \<and> fst (processMessage ex_client (in_guild ''spammer'' ''!ping''))
       = [Await (IsUserBlacklisted ''spammer'')]
   \<and> events (fst (processMessage ex_client (in_guild ''spammer'' ''!ping''))) = []"
proof -
  have h: "isUserBlacklisted ex_client (author_id (in_guild ''spammer'' ''!ping''))
           \<or> isChannelBlacklisted ex_client (channel_id (in_guild ''spammer'' ''!ping''))
           \<or> (\<exists>g. guild (in_guild ''spammer'' ''!ping'') = Some g
                 \<and> isGuildBlacklisted ex_client (guild_id g))"
    by (simp add: ex_client_def in_guild_def)
  have t: "fst (processMessage ex_client (in_guild ''spammer'' ''!ping''))
             = [Await (IsUserBlacklisted ''spammer'')]"
    by (simp add: stage_defs sample_defs)
  show ?thesis using blacklisted_silent [OF h] t by simp
qed

lemma calm_errors: "\<forall>a\<in>set t. \<not> is_lifecycle a \<Longrightarrow> filter is_error (events t) = []"
  by (induction t rule: events.induct) (auto elim: is_error.elims)

lemma calm_after: "\<forall>a\<in>set t. \<not> is_lifecycle a \<Longrightarrow> filter is_after t = []"
  by (induction t rule: events.induct) (auto elim: is_after.elims)

lemma blacklists_calm: "\<forall>a\<in>set (fst (blacklists c msg)). \<not> is_lifecycle a"
  by (auto simp add: blacklists_def split: option.splits)

lemma candidate_prefixes_calm: "\<forall>a\<in>set (fst (candidate_prefixes c msg)). \<not> is_lifecycle a"
  by (auto simp add: candidate_prefixes_def Let_def split: option.splits)

lemma used_prefix_calm: "fst (used_prefix c msg cs) = []"
  by (simp add: used_prefix_def split: option.splits)

lemma resolve_command_calm: "fst (resolve_command c msg p) = []"
  by (simp add: resolve_command_def split: option.splits)

lemma whitelists_calm: "fst (whitelists command cat msg) = []"
  by (simp add: whitelists_def)

lemma admit_calm: "\<forall>a\<in>set (fst (admit c msg)). \<not> is_lifecycle a"
  unfolding admit_def
  apply (rule then_do_all, rule blacklists_calm)
  apply (rule then_do_all, rule candidate_prefixes_calm)
  apply (rule then_do_all, simp add: used_prefix_calm)
  apply (rule then_do_all, simp add: resolve_command_calm)
  apply (simp only: split_def)
  apply (rule then_do_all, simp add: whitelists_calm)
  apply simp
  done

lemma scope_flags_calm: "\<forall>a\<in>set (fst (scope_flags c msg command cat ctx)). \<not> is_lifecycle a"
  by (simp add: scope_flags_def)

lemma bot_permissions_calm: "\<forall>a\<in>set (fst (bot_permissions msg command cat ctx)). \<not> is_lifecycle a"
  by (auto simp add: bot_permissions_def Let_def split: option.splits sum.splits)

lemma user_permissions_calm: "\<forall>a\<in>set (fst (user_permissions msg command cat ctx)). \<not> is_lifecycle a"
  by (auto simp add: user_permissions_def Let_def split: option.splits)

lemma gates_calm: "\<forall>a\<in>set (fst (gates c msg command cat ctx)). \<not> is_lifecycle a"
  unfolding gates_def
  by (intro then_do_all scope_flags_calm bot_permissions_calm user_permissions_calm)

lemma arity_calm: "\<forall>a\<in>set (fst (arity command parsed ctx)). \<not> is_lifecycle a"
  by (auto simp add: arity_def split: option.splits args_requirement.splits)

lemma dispatch_calm: "\<forall>a\<in>set (fst (dispatch c msg)). \<not> is_lifecycle a"
  unfolding dispatch_def
  apply (rule then_do_all, rule admit_calm)
  apply (simp only: split_def)
  apply (rule then_do_all, rule gates_calm)
  apply (rule then_do_all, rule arity_calm)
  apply simp
  done

lemma lifecycle_no_throw: "snd (lifecycle command ctx) \<noteq> Throw e"
  by (simp add: lifecycle_def split: sum.splits option.splits)

lemma processMessage_dispatched:
  "snd (dispatch c msg) = Next (command, ctx) \<Longrightarrow>
     processMessage c msg = (fst (dispatch c msg) @ fst (lifecycle command ctx), None)"
proof -
  assume d: "snd (dispatch c msg) = Next (command, ctx)"
  have p: "process c msg = (fst (dispatch c msg) @ fst (lifecycle command ctx),
                            snd (lifecycle command ctx))"
    by (simp add: process_def then_do_Next [OF d])
  show ?thesis
  proof (cases "snd (lifecycle command ctx)")
    case (Throw x)
    then show ?thesis using lifecycle_no_throw [of command ctx x] by simp
  qed (simp_all add: processMessage_def p)
qed

text \<open>
  C2. In an invocation that reaches the hooks with a command and a context, when the
  before-hook raises, or the execute-hook raises after the before-hook let it run,
  \<open>processMessage\<close> returns normally: the exception does not leave it; the one
  \<open>commandError\<close> event of the run carries that context and that exception; and the
  after-hook is not invoked.
\<close>

theorem hook_exception_contained:
  assumes "snd (dispatch c msg) = Next (command, ctx)"
    and "beforeExecute command ctx = Inl e
         \<or> (beforeExecute command ctx = Inr True \<and> execute command ctx = Inl e)"
  shows "snd (processMessage c msg) = None
         \<and> filter is_error (events (fst (processMessage c msg))) = [commandError ctx e]
         \<and> filter is_after (fst (processMessage c msg)) = []"
proof -
  have p: "processMessage c msg = (fst (dispatch c msg) @ fst (lifecycle command ctx), None)"
    using assms(1) by (rule processMessage_dispatched)
  have l: "fst (lifecycle command ctx) = [Emit (commandUsed ctx), BeforeExecute ctx, Emit (commandError ctx e)]
           \<or> fst (lifecycle command ctx) = [Emit (commandUsed ctx), BeforeExecute ctx, Execute ctx, Emit (commandError ctx e)]"
    using assms(2) by (auto simp add: lifecycle_def)
  have e: "filter is_error (events (fst (dispatch c msg))) = []"
    using dispatch_calm by (rule calm_errors)
  have a: "filter is_after (fst (dispatch c msg)) = []"
    using dispatch_calm by (rule calm_after)
  show ?thesis using p l e a by (auto simp add: events_append)
qed

theorem hook_exception_contained_witness:
  "snd (processMessage ex_client (direct ''alice'' ''!boom'')) = None
   \<and> filter is_error (events (fst (processMessage ex_client (direct ''alice'' ''!boom''))))
       = [commandError (make_context (direct ''alice'' ''!boom'') ''!''
                          (parse (direct ''alice'' ''!boom'') ''!'') boom) ''oops'']
   \<and> filter is_after (fst (processMessage ex_client (direct ''alice'' ''!boom''))) = []
   \<and> snd (processMessage ex_client (direct ''alice'' ''!grumpy'')) = None
   \<and> filter is_error (events (fst (processMessage ex_client (direct ''alice'' ''!grumpy''))))
       = [commandError (make_context (direct ''alice'' ''!grumpy'') ''!''
                          (parse (direct ''alice'' ''!grumpy'') ''!'') grumpy) ''no'']"
proof -
  let ?b = "make_context (direct ''alice'' ''!boom'') ''!'' (parse (direct ''alice'' ''!boom'') ''!'') boom"
  let ?g = "make_context (direct ''alice'' ''!grumpy'') ''!''
              (parse (direct ''alice'' ''!grumpy'') ''!'') grumpy"
  have d1: "snd (dispatch ex_client (direct ''alice'' ''!boom'')) = Next (boom, ?b)"
    by (simp add: stage_defs sample_defs)
  have h1: "beforeExecute boom ?b = Inl ''oops''
            \<or> (beforeExecute boom ?b = Inr True \<and> execute boom ?b = Inl ''oops'')"
    by (simp add: boom_def plain_def)
  have d2: "snd (dispatch ex_client (direct ''alice'' ''!grumpy'')) = Next (grumpy, ?g)"
    by (simp add: stage_defs sample_defs)
  have h2: "beforeExecute grumpy ?g = Inl ''no''
            \<or> (beforeExecute grumpy ?g = Inr True \<and> execute grumpy ?g = Inl ''no'')"
    by (simp add: grumpy_def plain_def)
  show ?thesis
    using hook_exception_contained [OF d1 h1] hook_exception_contained [OF d2 h2] by simp
qed

subsection \<open>The prefix\<close>

lemma set_insert_each: "set (insert_each seen xs) = set seen \<union> set xs"
  by (induction xs arbitrary: seen) auto

lemma distinct_insert_each: "distinct seen \<Longrightarrow> distinct (insert_each seen xs)"
  by (induction xs arbitrary: seen) auto

lemma set_unique: "set (unique xs) = set xs"
  by (simp add: unique_def set_insert_each)

lemma distinct_unique: "distinct (unique xs)"
  by (simp add: unique_def distinct_insert_each)

lemma candidate_prefixes_sources:
  "snd (candidate_prefixes c msg) = Next (unique (prefix_sources c msg))"
  by (simp add: candidate_prefixes_def prefix_sources_def Let_def split: option.splits)

lemma startsWith_same_length:
  "startsWith s p \<Longrightarrow> startsWith s q \<Longrightarrow> length p = length q \<Longrightarrow> p = q"
  by (simp add: startsWith_def)

lemma longest_match_None:
  "(longest_match s cs = None) = (\<forall>q\<in>set cs. \<not> startsWith s q)"
proof -
  have "(sort_key (\<lambda>v. - int (length v)) (filter (startsWith s) cs) = [])
          = (filter (startsWith s) cs = [])"
  proof -
    have "(length (sort_key (\<lambda>v. - int (length v)) (filter (startsWith s) cs)) = 0)
            = (length (filter (startsWith s) cs) = 0)"
      by (simp only: length_sort)
    then show ?thesis by (simp only: length_0_conv)
  qed
  then show ?thesis
    by (auto simp add: longest_match_def filter_empty_conv split: list.splits)
qed

lemma longest_match_Some:
  assumes "longest_match s cs = Some p"
  shows "p \<in> set cs \<and> startsWith s p \<and> (\<forall>q\<in>set cs. startsWith s q \<longrightarrow> length q \<le> length p)"
proof -
  let ?k = "\<lambda>v. - int (length v)"
  let ?m = "filter (startsWith s) cs"
  obtain ps where ps: "sort_key ?k ?m = p # ps"
    using assms by (auto simp add: longest_match_def split: list.splits)
  have mem: "p \<in> set ?m"
    using ps set_sort [of ?k ?m] by (metis list.set_intros(1))
  have "sorted (map ?k (p # ps))"
    using sorted_sort_key [of ?k ?m] ps by simp
  then have le: "\<forall>q\<in>set (p # ps). ?k p \<le> ?k q" by auto
  have "set (p # ps) = set ?m" using ps set_sort [of ?k ?m] by simp
  then have "\<forall>q\<in>set ?m. length q \<le> length p" using le by auto
  then show ?thesis using mem by auto
qed

lemma longest_match_set:
  assumes "set cs' = set cs"
  shows "longest_match s cs' = longest_match s cs"
proof (cases "longest_match s cs")
  case None
  then have "\<forall>q\<in>set cs'. \<not> startsWith s q" using assms by (simp add: longest_match_None)
  then have "longest_match s cs' = None" by (simp add: longest_match_None)
  then show ?thesis using None by simp
next
  case (Some p)
  note p = longest_match_Some [OF Some]
  have "longest_match s cs' \<noteq> None"
    using p assms by (auto simp add: longest_match_None)
  then obtain p' where s': "longest_match s cs' = Some p'" by auto
  note p' = longest_match_Some [OF s']
  have "length p = length p'" using p p' assms by (auto intro: antisym)
  then have "p = p'" using p p' startsWith_same_length by blast
  then show ?thesis using Some s' by simp
qed

subsection \<open>The gates\<close>

lemma then_do_assoc: "then_do (then_do m f) g = then_do m (\<lambda>x. then_do (f x) g)"
proof (cases "snd m")
  case (Next a)
  obtain t s where fa: "f a = (t, s)" by (cases "f a")
  show ?thesis
    using Next fa by (cases m; cases s) (simp_all add: then_do_def split: prod.splits)
next
  case Return
  then show ?thesis by (cases m) (simp add: then_do_def)
next
  case (Throw e)
  then show ?thesis by (cases m) (simp add: then_do_def)
qed

lemma then_do_unit: "then_do ([], Next x) f = f x"
  by (simp add: then_do_def split: prod.splits)

lemma process_admitted:
  assumes "snd (admit c msg) = Next (parsed, command, cat, ctx)"
  shows "process c msg = (fst (admit c msg) @ fst (hooks_from c msg parsed command cat ctx),
                          snd (hooks_from c msg parsed command cat ctx))"
proof -
  have "process c msg = then_do (admit c msg) (\<lambda>(parsed, command, cat, ctx).
          hooks_from c msg parsed command cat ctx)"
    by (simp add: process_def dispatch_def hooks_from_def then_do_assoc split_def then_do_unit)
  then show ?thesis
    using then_do_Next [OF assms, of "\<lambda>(parsed, command, cat, ctx).
          hooks_from c msg parsed command cat ctx"] by simp
qed

lemma processMessage_admitted:
  assumes "snd (admit c msg) = Next (parsed, command, cat, ctx)"
  shows "fst (processMessage c msg)
           = fst (admit c msg) @ fst (hooks_from c msg parsed command cat ctx)"
    and "snd (hooks_from c msg parsed command cat ctx) = Return \<Longrightarrow> snd (processMessage c msg) = None"
    and "snd (hooks_from c msg parsed command cat ctx) = Next () \<Longrightarrow> snd (processMessage c msg) = None"
  using process_admitted [OF assms]
  by (cases "snd (hooks_from c msg parsed command cat ctx)"; simp add: processMessage_def)+


lemma events_mem: "(ev \<in> set (events t)) = (Emit ev \<in> set t)"
  by (induction t rule: events.induct) auto

lemma blacklists_quiet: "\<forall>a\<in>set (fst (blacklists c msg)). \<not> is_observable a"
  by (auto simp add: blacklists_def split: option.splits)

lemma candidate_prefixes_quiet: "\<forall>a\<in>set (fst (candidate_prefixes c msg)). \<not> is_observable a"
  by (auto simp add: candidate_prefixes_def Let_def split: option.splits)

lemma admit_quiet: "\<forall>a\<in>set (fst (admit c msg)). \<not> is_observable a"
  unfolding admit_def
  apply (rule then_do_all, rule blacklists_quiet)
  apply (rule then_do_all, rule candidate_prefixes_quiet)
  apply (rule then_do_all, simp add: used_prefix_calm)
  apply (rule then_do_all, simp add: resolve_command_calm)
  apply (simp only: split_def)
  apply (rule then_do_all, simp add: whitelists_calm)
  apply simp
  done

lemma scope_flags_nsfw:
  "nsfw command = Some True \<Longrightarrow>
     scope_flags c msg command cat ctx \<in>
       {([Emit (commandOwnerOnly ctx)], Return), ([Emit (commandGuildOnly ctx)], Return),
        ([Emit (commandDmOnly ctx)], Return)}
     \<or> scope_flags c msg command cat ctx
           = (if guild msg = None \<or> \<not> channel_nsfw msg then ([Emit (commandNSFW ctx)], Return)
              else ([], Next ()))"
  by (simp add: scope_flags_def)

lemma hooks_from_scope_Return:
  "scope_flags c msg command cat ctx = (t, Return) \<Longrightarrow>
     hooks_from c msg parsed command cat ctx = (t, Return)"
  by (simp add: hooks_from_def gates_def then_do_def)

lemma bot_permissions_no_nsfw:
  "\<forall>a\<in>set (fst (bot_permissions msg command cat ctx)). a \<noteq> Emit (commandNSFW x)"
  by (auto simp add: bot_permissions_def Let_def split: option.splits sum.splits)

lemma user_permissions_no_nsfw:
  "\<forall>a\<in>set (fst (user_permissions msg command cat ctx)). a \<noteq> Emit (commandNSFW x)"
  by (auto simp add: user_permissions_def Let_def split: option.splits)

lemma arity_no_nsfw:
  "\<forall>a\<in>set (fst (arity command parsed ctx)). a \<noteq> Emit (commandNSFW x)"
  by (auto simp add: arity_def split: option.splits args_requirement.splits)

lemma lifecycle_no_nsfw:
  "\<forall>a\<in>set (fst (lifecycle command ctx)). a \<noteq> Emit (commandNSFW x)"
  by (auto simp add: lifecycle_def split: option.splits sum.splits)

lemma hooks_from_scope_Next:
  assumes "scope_flags c msg command cat ctx = ([], Next ())"
  shows "\<forall>a\<in>set (fst (hooks_from c msg parsed command cat ctx)). a \<noteq> Emit (commandNSFW x)"
  unfolding hooks_from_def gates_def
  apply (rule then_do_all)
   apply (rule then_do_all, simp add: assms)
   apply (rule then_do_all, rule bot_permissions_no_nsfw)
   apply (rule user_permissions_no_nsfw)
  apply (rule then_do_all, rule arity_no_nsfw)
  apply (rule lifecycle_no_nsfw)
  done

text \<open>
  C4, as the code has it. Take an invocation that has passed the whitelists, of a command
  whose own \<open>nsfw\<close> setting is true, and that none of the owner-only, guild-only and
  dm-only checks has stopped. It emits \<open>commandNSFW\<close> exactly when it occurs outside a
  guild or in a guild whose channel is not marked nsfw; and then that is the only event,
  no hook is invoked, and \<open>processMessage\<close> returns.
\<close>

theorem nsfw_gate:
  assumes "snd (admit c msg) = Next (parsed, command, cat, ctx)"
    and "nsfw command = Some True"
    and "commandOwnerOnly ctx \<notin> set (events (fst (processMessage c msg)))"
    and "commandGuildOnly ctx \<notin> set (events (fst (processMessage c msg)))"
    and "commandDmOnly ctx \<notin> set (events (fst (processMessage c msg)))"
  shows "(commandNSFW ctx \<in> set (events (fst (processMessage c msg))))
           = (guild msg = None \<or> \<not> channel_nsfw msg)
         \<and> (guild msg = None \<or> \<not> channel_nsfw msg \<longrightarrow>
              events (fst (processMessage c msg)) = [commandNSFW ctx]
              \<and> filter is_hook (fst (processMessage c msg)) = []
              \<and> snd (processMessage c msg) = None)"
proof -
  let ?h = "hooks_from c msg parsed command cat ctx"
  note pm = processMessage_admitted [OF assms(1)]
  have ea: "events (fst (admit c msg)) = []" using admit_quiet by (rule quiet_events)
  have ha: "filter is_hook (fst (admit c msg)) = []" using admit_quiet by (rule quiet_hooks)
  have ev: "events (fst (processMessage c msg)) = events (fst ?h)"
    using pm(1) ea by (simp add: events_append)
  have hk: "filter is_hook (fst (processMessage c msg)) = filter is_hook (fst ?h)"
    using pm(1) ha by simp
  have early: "\<And>ev. scope_flags c msg command cat ctx = ([Emit ev], Return) \<Longrightarrow>
                 events (fst (processMessage c msg)) = [ev]
                 \<and> filter is_hook (fst (processMessage c msg)) = []
                 \<and> snd (processMessage c msg) = None"
  proof -
    fix e assume s: "scope_flags c msg command cat ctx = ([Emit e], Return)"
    have "?h = ([Emit e], Return)" using s by (rule hooks_from_scope_Return)
    then show "events (fst (processMessage c msg)) = [e]
                 \<and> filter is_hook (fst (processMessage c msg)) = []
                 \<and> snd (processMessage c msg) = None"
      using ev hk pm(2) by simp
  qed
  have no: "scope_flags c msg command cat ctx \<notin>
       {([Emit (commandOwnerOnly ctx)], Return), ([Emit (commandGuildOnly ctx)], Return),
        ([Emit (commandDmOnly ctx)], Return)}"
    using early assms(3-5) by auto
  then have sf: "scope_flags c msg command cat ctx
           = (if guild msg = None \<or> \<not> channel_nsfw msg then ([Emit (commandNSFW ctx)], Return)
              else ([], Next ()))"
    using scope_flags_nsfw [OF assms(2), of c msg cat ctx] by blast
  show ?thesis
  proof (cases "guild msg = None \<or> \<not> channel_nsfw msg")
    case True
    then have "scope_flags c msg command cat ctx = ([Emit (commandNSFW ctx)], Return)"
      using sf by simp
    then show ?thesis using early True by simp
  next
    case False
    then have "scope_flags c msg command cat ctx = ([], Next ())" using sf by simp
    then have "Emit (commandNSFW ctx) \<notin> set (fst ?h)"
      using hooks_from_scope_Next [of c msg command cat ctx parsed ctx] by blast
    then have "commandNSFW ctx \<notin> set (events (fst (processMessage c msg)))"
      using ev by (simp add: events_mem)
    then show ?thesis using False by auto
  qed
qed


theorem nsfw_gate_witness:
  "events (fst (processMessage ex_client (in_guild ''alice'' ''!lewd'')))
     = [commandNSFW (make_context (in_guild ''alice'' ''!lewd'') ''!''
                       (parse (in_guild ''alice'' ''!lewd'') ''!'') lewd)]
   \<and> filter is_hook (fst (processMessage ex_client (in_guild ''alice'' ''!lewd''))) = []
   \<and> commandNSFW (make_context (in_guild ''alice'' ''!lewd'' \<lparr> channel_nsfw := True \<rparr>) ''!''
                    (parse (in_guild ''alice'' ''!lewd'' \<lparr> channel_nsfw := True \<rparr>) ''!'') lewd)
       \<notin> set (events (fst (processMessage ex_client
                               (in_guild ''alice'' ''!lewd'' \<lparr> channel_nsfw := True \<rparr>))))"
proof -
  let ?m = "in_guild ''alice'' ''!lewd''"
  let ?n = "in_guild ''alice'' ''!lewd'' \<lparr> channel_nsfw := True \<rparr>"
  let ?cm = "make_context ?m ''!'' (parse ?m ''!'') lewd"
  let ?cn = "make_context ?n ''!'' (parse ?n ''!'') lewd"
  have a1: "snd (admit ex_client ?m) = Next (parse ?m ''!'', lewd, None, ?cm)"
    by (simp add: stage_defs sample_defs)
  have a2: "snd (admit ex_client ?n) = Next (parse ?n ''!'', lewd, None, ?cn)"
    by (simp add: stage_defs sample_defs)
  have f: "nsfw lewd = Some True" by (simp add: lewd_def plain_def)
  have e1: "events (fst (processMessage ex_client ?m)) = [commandNSFW ?cm]"
    by (simp add: stage_defs sample_defs)
  have e2: "events (fst (processMessage ex_client ?n)) = [commandUsed ?cn]"
    by (simp add: stage_defs sample_defs)
  have g: "guild ?m \<noteq> None \<and> \<not> channel_nsfw ?m \<and> guild ?n \<noteq> None \<and> channel_nsfw ?n"
    by (simp add: in_guild_def)
  have o1: "commandOwnerOnly ?cm \<notin> set (events (fst (processMessage ex_client ?m)))"
    and g1: "commandGuildOnly ?cm \<notin> set (events (fst (processMessage ex_client ?m)))"
    and d1: "commandDmOnly ?cm \<notin> set (events (fst (processMessage ex_client ?m)))"
    using e1 by simp_all
  have o2: "commandOwnerOnly ?cn \<notin> set (events (fst (processMessage ex_client ?n)))"
    and g2: "commandGuildOnly ?cn \<notin> set (events (fst (processMessage ex_client ?n)))"
    and d2: "commandDmOnly ?cn \<notin> set (events (fst (processMessage ex_client ?n)))"
    using e2 by simp_all
  show ?thesis
    using g nsfw_gate [OF a1 f o1 g1 d1] nsfw_gate [OF a2 f o2 g2 d2] by simp
qed

text \<open>
  C4 outside a guild: a direct message invoking a command whose \<open>nsfw\<close> is true gets
  \<open>commandNSFW\<close> and no hook.
\<close>

theorem nsfw_outside_guild_counterexample:
  "nsfw lewd = Some True
   \<and> guild (direct ''alice'' ''!lewd'') = None
   \<and> events (fst (processMessage ex_client (direct ''alice'' ''!lewd'')))
       = [commandNSFW (make_context (direct ''alice'' ''!lewd'') ''!''
                         (parse (direct ''alice'' ''!lewd'') ''!'') lewd)]
   \<and> filter is_hook (fst (processMessage ex_client (direct ''alice'' ''!lewd''))) = []"
  by (simp add: stage_defs sample_defs)

lemma then_do_Next_inv:
  assumes "snd (then_do m f) = Next b"
  shows "\<exists>a. snd m = Next a \<and> snd (f a) = Next b \<and> fst (then_do m f) = fst m @ fst (f a)"
proof (cases "snd m")
  case (Next a)
  then show ?thesis using assms then_do_Next [OF Next, of f] by simp
next
  case Return
  then show ?thesis using assms then_do_Return [OF Return, of f] by simp
next
  case (Throw e)
  then show ?thesis using assms then_do_Throw [OF Throw, of f] by simp
qed

lemma scope_flags_Next:
  "snd (scope_flags c msg command cat ctx) = Next () \<Longrightarrow> fst (scope_flags c msg command cat ctx) = []"
  by (auto simp add: scope_flags_def split: if_splits)

lemma bot_permissions_Next:
  "snd (bot_permissions msg command cat ctx) = Next () \<Longrightarrow>
     events (fst (bot_permissions msg command cat ctx)) = []
     \<and> filter is_hook (fst (bot_permissions msg command cat ctx)) = []"
  by (auto simp add: bot_permissions_def Let_def split: option.splits sum.splits if_splits)

lemma user_permissions_Next:
  "snd (user_permissions msg command cat ctx) = Next () \<Longrightarrow> fst (user_permissions msg command cat ctx) = []"
  by (auto simp add: user_permissions_def Let_def split: option.splits if_splits)

lemma gates_Next:
  assumes "snd (gates c msg command cat ctx) = Next ()"
  shows "events (fst (gates c msg command cat ctx)) = []
         \<and> filter is_hook (fst (gates c msg command cat ctx)) = []"
proof -
  let ?k = "\<lambda>_::unit. then_do (bot_permissions msg command cat ctx)
                        (\<lambda>_. user_permissions msg command cat ctx)"
  have g: "gates c msg command cat ctx = then_do (scope_flags c msg command cat ctx) ?k"
    by (simp add: gates_def)
  obtain a where s: "snd (scope_flags c msg command cat ctx) = Next a"
    and k: "snd (?k a) = Next ()"
    and t: "fst (gates c msg command cat ctx) = fst (scope_flags c msg command cat ctx) @ fst (?k a)"
    using then_do_Next_inv [of "scope_flags c msg command cat ctx" ?k "()"] assms g by auto
  obtain b where bp: "snd (bot_permissions msg command cat ctx) = Next b"
    and u: "snd (user_permissions msg command cat ctx) = Next ()"
    and t2: "fst (?k a) = fst (bot_permissions msg command cat ctx)
                           @ fst (user_permissions msg command cat ctx)"
    using then_do_Next_inv [of "bot_permissions msg command cat ctx"
        "\<lambda>_. user_permissions msg command cat ctx" "()"] k by auto
  show ?thesis
    using t t2 scope_flags_Next [of c msg command cat ctx] s
      bot_permissions_Next [of msg command cat ctx] bp
      user_permissions_Next [OF u]
    by (simp add: events_append)
qed

lemma lifecycle_starts:
  "\<exists>t. fst (lifecycle command ctx) = Emit (commandUsed ctx) # BeforeExecute ctx # t"
  by (simp add: lifecycle_def split: sum.splits option.splits)

lemma lifecycle_returns:
  "snd (lifecycle command ctx) = Next () \<or> snd (lifecycle command ctx) = Return"
  by (simp add: lifecycle_def split: sum.splits option.splits)

lemma hooks_from_gated:
  assumes "snd (gates c msg command cat ctx) = Next ()"
  shows "hooks_from c msg parsed command cat ctx
           = (fst (gates c msg command cat ctx)
                @ fst (then_do (arity command parsed ctx) (\<lambda>_. lifecycle command ctx)),
              snd (then_do (arity command parsed ctx) (\<lambda>_. lifecycle command ctx)))"
  by (simp add: hooks_from_def then_do_Next [OF assms])

text \<open>
  C5, as the code has it. Take an invocation that has passed every gate before the
  argument check. If the command's \<open>args\<close> is a boolean and no argument was parsed,
  \<open>commandMissingArgs\<close> is the only event, no hook is invoked and \<open>processMessage\<close>
  returns. If \<open>args\<close> is a number and fewer arguments were parsed, \<open>commandMissingArgs\<close>
  is emitted and processing goes on: \<open>commandUsed\<close> follows and the before-hook is
  invoked.
\<close>

theorem missing_args:
  assumes "snd (admit c msg) = Next (parsed, command, cat, ctx)"
    and "snd (gates c msg command cat ctx) = Next ()"
  shows "(command_args command = Some (ArgsBoolean b) \<and> args parsed = [] \<longrightarrow>
            events (fst (processMessage c msg)) = [commandMissingArgs ctx]
            \<and> filter is_hook (fst (processMessage c msg)) = []
            \<and> snd (processMessage c msg) = None)
         \<and> (command_args command = Some (ArgsNumber n) \<and> int (length (args parsed)) < n \<longrightarrow>
              (\<exists>es. events (fst (processMessage c msg))
                       = commandMissingArgs ctx # commandUsed ctx # es)
              \<and> (\<exists>hs. filter is_hook (fst (processMessage c msg)) = BeforeExecute ctx # hs)
              \<and> snd (processMessage c msg) = None)"
proof -
  let ?h = "hooks_from c msg parsed command cat ctx"
  let ?x = "then_do (arity command parsed ctx) (\<lambda>_. lifecycle command ctx)"
  note pm = processMessage_admitted [OF assms(1)]
  have ea: "events (fst (admit c msg)) = []" using admit_quiet by (rule quiet_events)
  have ha: "filter is_hook (fst (admit c msg)) = []" using admit_quiet by (rule quiet_hooks)
  note gn = gates_Next [OF assms(2)]
  note hg = hooks_from_gated [OF assms(2), of parsed]
  have ev: "events (fst (processMessage c msg)) = events (fst ?x)"
    using pm(1) ea gn hg by (simp add: events_append)
  have hk: "filter is_hook (fst (processMessage c msg)) = filter is_hook (fst ?x)"
    using pm(1) ha gn hg by simp
  have sn: "snd ?h = snd ?x" using hg by simp
  show ?thesis
  proof (intro conjI impI)
    assume "command_args command = Some (ArgsBoolean b) \<and> args parsed = []"
    then have x: "?x = ([Emit (commandMissingArgs ctx)], Return)"
      by (simp add: arity_def then_do_def)
    show "events (fst (processMessage c msg)) = [commandMissingArgs ctx]" using ev x by simp
    show "filter is_hook (fst (processMessage c msg)) = []" using hk x by simp
    show "snd (processMessage c msg) = None" using pm(2) sn x by simp
  next
    assume "command_args command = Some (ArgsNumber n) \<and> int (length (args parsed)) < n"
    then have x: "?x = (Emit (commandMissingArgs ctx) # fst (lifecycle command ctx),
                        snd (lifecycle command ctx))"
      by (simp add: arity_def then_do_def split: prod.splits)
    obtain t where t: "fst (lifecycle command ctx) = Emit (commandUsed ctx) # BeforeExecute ctx # t"
      using lifecycle_starts by blast
    show "\<exists>es. events (fst (processMessage c msg)) = commandMissingArgs ctx # commandUsed ctx # es"
      using ev x t by simp
    show "\<exists>hs. filter is_hook (fst (processMessage c msg)) = BeforeExecute ctx # hs"
      using hk x t by simp
    show "snd (processMessage c msg) = None"
      using pm(2,3) sn x lifecycle_returns [of command ctx] by auto
  qed
qed

theorem missing_args_witness:
  "events (fst (processMessage ex_client (direct ''alice'' ''!say'')))
     = [commandMissingArgs (make_context (direct ''alice'' ''!say'') ''!''
                              (parse (direct ''alice'' ''!say'') ''!'') say)]
   \<and> filter is_hook (fst (processMessage ex_client (direct ''alice'' ''!say''))) = []
   \<and> (\<exists>es. events (fst (processMessage ex_client (direct ''alice'' ''!add'')))
        = commandMissingArgs (make_context (direct ''alice'' ''!add'') ''!''
                                (parse (direct ''alice'' ''!add'') ''!'') add)
          # commandUsed (make_context (direct ''alice'' ''!add'') ''!''
                           (parse (direct ''alice'' ''!add'') ''!'') add) # es)
   \<and> (\<exists>hs. filter is_hook (fst (processMessage ex_client (direct ''alice'' ''!add'')))
        = BeforeExecute (make_context (direct ''alice'' ''!add'') ''!''
                           (parse (direct ''alice'' ''!add'') ''!'') add) # hs)"
proof -
  let ?s = "direct ''alice'' ''!say''"
  let ?a = "direct ''alice'' ''!add''"
  let ?cs = "make_context ?s ''!'' (parse ?s ''!'') say"
  let ?ca = "make_context ?a ''!'' (parse ?a ''!'') add"
  have a1: "snd (admit ex_client ?s) = Next (parse ?s ''!'', say, None, ?cs)"
    by (simp add: stage_defs sample_defs)
  have g1: "snd (gates ex_client ?s say None ?cs) = Next ()"
    by (simp add: stage_defs sample_defs)
  have r1: "command_args say = Some (ArgsBoolean True) \<and> args (parse ?s ''!'') = []"
    by (simp add: say_def plain_def parse_def)
  have a2: "snd (admit ex_client ?a) = Next (parse ?a ''!'', add, None, ?ca)"
    by (simp add: stage_defs sample_defs)
  have g2: "snd (gates ex_client ?a add None ?ca) = Next ()"
    by (simp add: stage_defs sample_defs)
  have r2: "command_args add = Some (ArgsNumber 2) \<and> int (length (args (parse ?a ''!''))) < 2"
    by (simp add: add_def plain_def parse_def)
  show ?thesis
    using r1 r2 missing_args [OF a1 g1, of True 0] missing_args [OF a2 g2, of True 2]
    by simp
qed

text \<open>
  C5 at a boolean requirement: with no argument parsed the event is emitted and no hook
  is invoked.
\<close>

theorem boolean_args_counterexample:
  "command_args say = Some (ArgsBoolean True)
   \<and> args (parse (direct ''alice'' ''!say'') ''!'') = []
   \<and> events (fst (processMessage ex_client (direct ''alice'' ''!say'')))
       = [commandMissingArgs (make_context (direct ''alice'' ''!say'') ''!''
                                (parse (direct ''alice'' ''!say'') ''!'') say)]
   \<and> filter is_hook (fst (processMessage ex_client (direct ''alice'' ''!say''))) = []"
  by (simp add: stage_defs sample_defs)

text \<open>
  C3. The code at two inputs, in a guild where the bot has no permission. A command with
  \<open>botPermissions\<close> BAN_MEMBERS and \<open>permissions\<close> KICK_MEMBERS: the missing list holds the
  characters of BAN_MEMBERS, and neither permission. A command without permissions of
  its own, in a category whose \<open>botPermissions\<close> is KICK_MEMBERS: nothing is checked and
  the command is executed.
\<close>

theorem bot_permissions_failing_input:
  "botPermissions ban = Some (Many [''BAN_MEMBERS''])
   \<and> permissions ban = Some (Many [''KICK_MEMBERS''])
   \<and> events (fst (processMessage ex_client (in_guild ''alice'' ''!ban'')))
       = [commandBotMissingPermissions
            (make_context (in_guild ''alice'' ''!ban'') ''!'' (parse (in_guild ''alice'' ''!ban'') ''!'') ban)
            [''B'', ''A'', ''N'', ''_'', ''M'', ''E'', ''R'', ''S'']]
   \<and> events (fst (processMessage ex_client (in_guild ''alice'' ''!kick'')))
       = [commandUsed (make_context (in_guild ''alice'' ''!kick'') ''!''
                         (parse (in_guild ''alice'' ''!kick'') ''!'') kick)]
   \<and> Execute (make_context (in_guild ''alice'' ''!kick'') ''!''
                 (parse (in_guild ''alice'' ''!kick'') ''!'') kick)
       \<in> set (fst (processMessage ex_client (in_guild ''alice'' ''!kick'')))"
  by (simp add: stage_defs sample_defs)

subsection \<open>The prefix the run goes on with\<close>

lemma resolve_command_Next:
  "snd (resolve_command c msg u) = Next (parsed, command, cat) \<Longrightarrow>
     parseCommand c msg u = Some parsed"
  by (simp add: resolve_command_def split: option.splits)

lemma admit_prefix:
  assumes "snd (admit c msg) = Next (parsed, command, cat, ctx)"
  shows "\<exists>u. snd (used_prefix c msg (unique (prefix_sources c msg))) = Next u
             \<and> ctx = make_context msg u parsed command
             \<and> parseCommand c msg u = Some parsed"
proof -
  let ?R = "(parsed, command, cat, ctx)"
  let ?K4 = "\<lambda>u. \<lambda>(parsed, command, cat).
               then_do (whitelists command cat msg) (\<lambda>_.
                 ([], Next (parsed, command, cat, make_context msg u parsed command)))"
  let ?K3 = "\<lambda>u. then_do (resolve_command c msg u) (?K4 u)"
  let ?K2 = "\<lambda>cands. then_do (used_prefix c msg cands) ?K3"
  let ?K1 = "\<lambda>_::unit. then_do (candidate_prefixes c msg) ?K2"
  have a: "admit c msg = then_do (blacklists c msg) ?K1" by (simp add: admit_def)
  have s1: "snd (then_do (candidate_prefixes c msg) ?K2) = Next ?R"
    using then_do_Next_inv [of "blacklists c msg" ?K1 ?R] assms a by auto
  obtain cands where c1: "snd (candidate_prefixes c msg) = Next cands"
    and s2: "snd (?K2 cands) = Next ?R"
    using then_do_Next_inv [OF s1] by blast
  have cs: "cands = unique (prefix_sources c msg)"
    using c1 candidate_prefixes_sources [of c msg] by simp
  obtain u where u: "snd (used_prefix c msg cands) = Next u" and s3: "snd (?K3 u) = Next ?R"
    using then_do_Next_inv [OF s2] by blast
  obtain x where x: "snd (resolve_command c msg u) = Next x" and s4: "snd (?K4 u x) = Next ?R"
    using then_do_Next_inv [OF s3] by blast
  obtain p' c' k' where xe: "x = (p', c', k')" by (cases x)
  have s5: "snd (then_do (whitelists c' k' msg) (\<lambda>_.
              ([], Next (p', c', k', make_context msg u p' c')))) = Next ?R"
    using s4 xe by simp
  have r: "(p', c', k', make_context msg u p' c') = ?R"
    using then_do_Next_inv [OF s5] by auto
  have "parseCommand c msg u = Some p'"
    using x xe resolve_command_Next [of c msg u p' c' k'] by simp
  then show ?thesis using u cs r by auto
qed

lemma quiet_context: "\<not> is_observable a \<Longrightarrow> action_context a = None"
  by (cases a) simp_all

lemma scope_flags_context:
  "\<forall>a\<in>set (fst (scope_flags c msg command cat ctx)).
     action_context a = None \<or> action_context a = Some ctx"
  by (simp add: scope_flags_def)

lemma bot_permissions_context:
  "\<forall>a\<in>set (fst (bot_permissions msg command cat ctx)).
     action_context a = None \<or> action_context a = Some ctx"
  by (auto simp add: bot_permissions_def Let_def split: option.splits sum.splits)

lemma user_permissions_context:
  "\<forall>a\<in>set (fst (user_permissions msg command cat ctx)).
     action_context a = None \<or> action_context a = Some ctx"
  by (auto simp add: user_permissions_def Let_def split: option.splits)

lemma arity_context:
  "\<forall>a\<in>set (fst (arity command parsed ctx)).
     action_context a = None \<or> action_context a = Some ctx"
  by (auto simp add: arity_def split: option.splits args_requirement.splits)

lemma lifecycle_context:
  "\<forall>a\<in>set (fst (lifecycle command ctx)).
     action_context a = None \<or> action_context a = Some ctx"
  by (auto simp add: lifecycle_def split: option.splits sum.splits)

lemma hooks_from_context:
  "\<forall>a\<in>set (fst (hooks_from c msg parsed command cat ctx)).
     action_context a = None \<or> action_context a = Some ctx"
  unfolding hooks_from_def gates_def
  apply (rule then_do_all)
   apply (rule then_do_all, rule scope_flags_context)
   apply (rule then_do_all, rule bot_permissions_context)
   apply (rule user_permissions_context)
  apply (rule then_do_all, rule arity_context)
  apply (rule lifecycle_context)
  done

lemma processMessage_not_admitted:
  assumes "\<forall>r. snd (admit c msg) \<noteq> Next r"
  shows "fst (processMessage c msg) = fst (admit c msg)"
proof (cases "snd (admit c msg)")
  case (Next r)
  then show ?thesis using assms by simp
next
  case Return
  then show ?thesis
    by (simp add: processMessage_def process_def dispatch_def then_do_Return)
next
  case (Throw e)
  then show ?thesis
    by (simp add: processMessage_def process_def dispatch_def then_do_Throw)
qed

lemma processMessage_context:
  assumes "longest_match (msg_content msg) (unique (prefix_sources c msg)) = Some p"
    and "a \<in> set (fst (processMessage c msg))"
    and "action_context a = Some x"
  shows "ctx_prefix x = p"
proof (cases "\<forall>r. snd (admit c msg) \<noteq> Next r")
  case True
  then have "a \<in> set (fst (admit c msg))"
    using assms(2) processMessage_not_admitted [of c msg] by simp
  then have "action_context a = None" using admit_quiet quiet_context by blast
  then show ?thesis using assms(3) by simp
next
  case False
  then obtain parsed command cat ctx where ad: "snd (admit c msg) = Next (parsed, command, cat, ctx)"
    by (metis prod_cases4)
  obtain u where u: "snd (used_prefix c msg (unique (prefix_sources c msg))) = Next u"
    and cx: "ctx = make_context msg u parsed command"
    using admit_prefix [OF ad] by blast
  have "used_prefix c msg (unique (prefix_sources c msg)) = ([], Next p)"
    using assms(1) by (simp add: used_prefix_def)
  then have up: "u = p" using u by simp
  have pre: "ctx_prefix ctx = p" using cx up by (simp add: make_context_def)
  have "a \<in> set (fst (admit c msg)) \<or> a \<in> set (fst (hooks_from c msg parsed command cat ctx))"
    using assms(2) processMessage_admitted(1) [OF ad] by simp
  then show ?thesis
  proof
    assume "a \<in> set (fst (admit c msg))"
    then have "action_context a = None" using admit_quiet quiet_context by blast
    then show ?thesis using assms(3) by simp
  next
    assume "a \<in> set (fst (hooks_from c msg parsed command cat ctx))"
    then have "action_context a = None \<or> action_context a = Some ctx"
      using hooks_from_context by blast
    then show ?thesis using assms(3) pre by auto
  qed
qed

text \<open>
  C6. The candidates are the global, user-scoped and (in a guild) guild-scoped prefixes,
  each kept once. For every list of candidates and every text: if no candidate begins
  the text, none is selected; otherwise the selected prefix is a candidate that begins
  the text, no candidate that begins the text is longer, and it is the only such
  candidate of its length. The selection depends on the set of candidates and the text
  alone, so the same input always gives the same prefix. And the selected prefix is the
  one \<open>processMessage\<close> goes on with: when a candidate of the message begins its text,
  the command is parsed with the longest such candidate, the context holds it as its
  prefix, and every event emitted and every hook invoked in the run carries a context
  with that prefix.
\<close>

theorem longest_prefix_selected:
  "snd (candidate_prefixes c msg) = Next (unique (prefix_sources c msg))
   \<and> set (unique (prefix_sources c msg)) = set (prefix_sources c msg)
   \<and> distinct (unique (prefix_sources c msg))
   \<and> (case longest_match s cs of
         None \<Rightarrow> \<forall>q\<in>set cs. \<not> startsWith s q
       | Some p \<Rightarrow> p \<in> set cs \<and> startsWith s p
                  \<and> (\<forall>q\<in>set cs. startsWith s q \<longrightarrow> length q \<le> length p)
                  \<and> (\<forall>q\<in>set cs. startsWith s q \<and> length q = length p \<longrightarrow> q = p))
   \<and> (set cs' = set cs \<longrightarrow> longest_match s cs' = longest_match s cs)
   \<and> (longest_match (msg_content msg) cs = Some u \<longrightarrow> used_prefix c msg cs = ([], Next u))
   \<and> (snd (admit c msg) = Next (parsed, command, cat, ctx)
        \<and> longest_match (msg_content msg) (unique (prefix_sources c msg)) = Some w \<longrightarrow>
          ctx_prefix ctx = w \<and> parseCommand c msg w = Some parsed)
   \<and> (longest_match (msg_content msg) (unique (prefix_sources c msg)) = Some w
        \<and> a \<in> set (fst (processMessage c msg)) \<and> action_context a = Some x \<longrightarrow>
          ctx_prefix x = w)"
proof -
  have a: "case longest_match s cs of
         None \<Rightarrow> \<forall>q\<in>set cs. \<not> startsWith s q
       | Some p \<Rightarrow> p \<in> set cs \<and> startsWith s p
                  \<and> (\<forall>q\<in>set cs. startsWith s q \<longrightarrow> length q \<le> length p)
                  \<and> (\<forall>q\<in>set cs. startsWith s q \<and> length q = length p \<longrightarrow> q = p)"
  proof (cases "longest_match s cs")
    case None
    then show ?thesis using longest_match_None [of s cs] by simp
  next
    case (Some p)
    then show ?thesis
      using longest_match_Some [OF Some] startsWith_same_length [of s _ p] by auto
  qed
  have b: "longest_match (msg_content msg) cs = Some u \<longrightarrow> used_prefix c msg cs = ([], Next u)"
    by (simp add: used_prefix_def)
  have d: "set cs' = set cs \<longrightarrow> longest_match s cs' = longest_match s cs"
    using longest_match_set [of cs' cs s] by simp
  have e: "snd (admit c msg) = Next (parsed, command, cat, ctx)
        \<and> longest_match (msg_content msg) (unique (prefix_sources c msg)) = Some w \<longrightarrow>
          ctx_prefix ctx = w \<and> parseCommand c msg w = Some parsed"
  proof
    assume h: "snd (admit c msg) = Next (parsed, command, cat, ctx)
        \<and> longest_match (msg_content msg) (unique (prefix_sources c msg)) = Some w"
    then obtain v where v: "snd (used_prefix c msg (unique (prefix_sources c msg))) = Next v"
      and cx: "ctx = make_context msg v parsed command"
      and pc: "parseCommand c msg v = Some parsed"
      using admit_prefix [of c msg parsed command cat ctx] by blast
    have "used_prefix c msg (unique (prefix_sources c msg)) = ([], Next w)"
      using h by (simp add: used_prefix_def)
    then have "v = w" using v by simp
    then show "ctx_prefix ctx = w \<and> parseCommand c msg w = Some parsed"
      using cx pc by (simp add: make_context_def)
  qed
  have f: "longest_match (msg_content msg) (unique (prefix_sources c msg)) = Some w
        \<and> a \<in> set (fst (processMessage c msg)) \<and> action_context a = Some x \<longrightarrow>
          ctx_prefix x = w"
    using processMessage_context [of msg c w a x] by blast
  show ?thesis
    apply (intro conjI)
           apply (rule candidate_prefixes_sources)
          apply (rule set_unique)
         apply (rule distinct_unique)
        apply (rule a)
       apply (rule d)
      apply (rule b)
     apply (rule e)
    apply (rule f)
    done
qed

theorem longest_prefix_selected_witness:
  "snd (candidate_prefixes ex_client (in_guild ''alice'' ''!!ping'')) = Next [''!'', ''!!'', ''?'']
   \<and> longest_match ''!!ping'' [''!'', ''!!'', ''?''] = Some ''!!''
   \<and> longest_match ''!!ping'' [''!!'', ''?'', ''!''] = Some ''!!''
   \<and> used_prefix ex_client (in_guild ''alice'' ''!!ping'') [''!'', ''!!'', ''?''] = ([], Next ''!!'')
   \<and> snd (admit ex_client (in_guild ''alice'' ''!!ping''))
       = Next (parse (in_guild ''alice'' ''!!ping'') ''!!'', plain, None,
               make_context (in_guild ''alice'' ''!!ping'') ''!!''
                 (parse (in_guild ''alice'' ''!!ping'') ''!!'') plain)
   \<and> ctx_prefix (make_context (in_guild ''alice'' ''!!ping'') ''!!''
                    (parse (in_guild ''alice'' ''!!ping'') ''!!'') plain) = ''!!''
   \<and> Emit (commandUsed (make_context (in_guild ''alice'' ''!!ping'') ''!!''
                           (parse (in_guild ''alice'' ''!!ping'') ''!!'') plain))
       \<in> set (fst (processMessage ex_client (in_guild ''alice'' ''!!ping'')))"
proof -
  let ?m = "in_guild ''alice'' ''!!ping''"
  let ?ctx = "make_context ?m ''!!'' (parse ?m ''!!'') plain"
  have u: "unique (prefix_sources ex_client ?m) = [''!'', ''!!'', ''?'']"
    by (simp add: unique_def prefix_sources_def ex_client_def in_guild_def ex_guild_def)
  have m: "longest_match ''!!ping'' [''!'', ''!!'', ''?''] = Some ''!!''"
    by (simp add: longest_match_def startsWith_def)
  have s: "set [''!!'', ''?'', ''!''] = set [''!'', ''!!'', ''?'']" by auto
  have c: "msg_content ?m = ''!!ping''" by (simp add: in_guild_def)
  have ad: "snd (admit ex_client ?m) = Next (parse ?m ''!!'', plain, None, ?ctx)"
    by (simp add: stage_defs sample_defs)
  have ev: "Emit (commandUsed ?ctx) \<in> set (fst (processMessage ex_client ?m))"
    by (simp add: stage_defs sample_defs)
  have ac: "action_context (Emit (commandUsed ?ctx)) = Some ?ctx" by simp
  show ?thesis
    using u m s c ad ev ac
      longest_prefix_selected [where c = ex_client and msg = ?m
        and s = "''!!ping''" and cs = "[''!'', ''!!'', ''?'']" and cs' = "[''!!'', ''?'', ''!'']"
        and u = "''!!''" and w = "''!!''" and parsed = "parse ?m ''!!''" and command = plain
        and cat = None and ctx = ?ctx and a = "Emit (commandUsed ?ctx)" and x = ?ctx]
    by auto
qed

end
